theory Spec2Isabelle
  imports Main
begin

section \<open>Data model of the authentication manager (utils/auth-manager.ts)\<close>

text \<open>
  The manager is an object with six fields that matter for its behaviour: the immutable
  configuration (\<open>apiKey\<close>, \<open>scopes\<close>, \<open>accessTokenExpiry\<close>, \<open>refreshTokenExpiry\<close>), the
  optional \<open>tokenStorage\<close> and the optional \<open>tokenRefreshPromise\<close>. Its methods are
  asynchronous: each runs synchronously up to an \<open>await\<close> and is resumed later. The model
  splits every such method at its suspension point, keeps the promises the manager created
  in a heap (a list; a promise is identified by its index) and records the requests sent
  through the manager's own HTTP instance (field \<open>axios\<close>). Instants and lifetimes are
  milliseconds, modelled as \<open>int\<close>. The logger has no influence on results and is left out.
\<close>

datatype AuthScope = Discover | Event | Ingestion

text \<open>
  The body of a response is not validated: the declared type of its \<open>accessToken\<close> is
  \<open>string\<close>, but at run time the field is whatever the endpoint sent, and a body whose
  access token is \<open>null\<close> or missing is stored and returned as it is. The access token is
  therefore an optional string throughout, \<open>None\<close> standing for \<open>null\<close> and \<open>undefined\<close>
  alike (both are falsy). The other fields are kept at their declared types.
\<close>

record TokenResponse =
  resp_accessToken :: "string option"
  resp_refreshToken :: string
  resp_accessTokenExpiry :: int
  resp_refreshTokenExpiry :: int

record RefreshTokenResponse =
  refreshed_accessToken :: "string option"

record TokenStorage =
  accessToken :: "string option"
  refreshToken :: string
  accessTokenExpiresAt :: int
  refreshTokenExpiresAt :: int

text \<open>
  What a rejected promise carries: the two errors the manager throws itself, the
  \<open>TypeError\<close> of the runtime when a property of \<open>undefined\<close> is written, and whatever
  the HTTP library rejects with (network error, timeout, non-success status).
\<close>

datatype error =
    ApiKeyRequired
  | NoTokenStorage
  | TypeError
  | RequestFailed string

datatype settled = Fulfilled "string option" | Rejected error

text \<open>
  One promise stored in \<open>tokenRefreshPromise\<close> is \<open>exchange().finally(callback)\<close>. Its life:
  the exchange is suspended at its HTTP call (\<open>AwaitingResponse\<close>); the exchange has
  returned or thrown but the \<open>finally\<close> callback has not run yet (\<open>Settled\<close>); the callback
  has run and the promise handed to the callers is settled (\<open>Finalized\<close>).
\<close>

datatype phase = AwaitingResponse | Settled settled | Finalized settled

datatype exchange = Generation | Refresh

record acquisition =
  exchange :: exchange
  phase :: phase

datatype request =
    Post "AuthScope list" int int string
  | Put string

record AuthManager =
  apiKey :: "string option"
  scopes :: "AuthScope list"
  accessTokenExpiry :: int
  refreshTokenExpiry :: int
  tokenStorage :: "TokenStorage option"
  tokenRefreshPromise :: "nat option"
  axios :: "request list"
  promises :: "acquisition list"

type_synonym headers = "(string \<times> string) list"

text \<open>The constructor with its default arguments.\<close>

definition new_AuthManager ::
  "string option \<Rightarrow> AuthScope list option \<Rightarrow> int option \<Rightarrow> int option \<Rightarrow> AuthManager" where
  "new_AuthManager key scs accessExp refreshExp =
     \<lparr> apiKey = key,
       scopes = (case scs of None \<Rightarrow> [Discover, Event, Ingestion] | Some s \<Rightarrow> s),
       accessTokenExpiry = (case accessExp of None \<Rightarrow> 86400000 | Some a \<Rightarrow> a),
       refreshTokenExpiry = (case refreshExp of None \<Rightarrow> 604800000 | Some r \<Rightarrow> r),
       tokenStorage = None,
       tokenRefreshPromise = None,
       axios = [],
       promises = [] \<rparr>"

text \<open>Truthiness of an optional string: \<open>undefined\<close>, \<open>null\<close> and the empty string are falsy.\<close>

fun truthy :: "string option \<Rightarrow> bool" where
  "truthy None = False"
| "truthy (Some s) = (s \<noteq> [])"

section \<open>Validity predicates, status and clearing\<close>

definition isAccessTokenValid :: "AuthManager \<Rightarrow> int \<Rightarrow> bool" where
  "isAccessTokenValid m now =
     (case tokenStorage m of
        None \<Rightarrow> False
      | Some ts \<Rightarrow> now < accessTokenExpiresAt ts - 60000)"

definition isRefreshTokenValid :: "AuthManager \<Rightarrow> int \<Rightarrow> bool" where
  "isRefreshTokenValid m now =
     (case tokenStorage m of
        None \<Rightarrow> False
      | Some ts \<Rightarrow> now < refreshTokenExpiresAt ts)"

definition clearTokens :: "AuthManager \<Rightarrow> AuthManager" where
  "clearTokens m = m\<lparr>tokenStorage := None\<rparr>"

record TokenStatus =
  hasTokens :: bool
  accessTokenValid :: bool
  refreshTokenValid :: bool

definition getTokenStatus :: "AuthManager \<Rightarrow> int \<Rightarrow> TokenStatus" where
  "getTokenStatus m now =
     \<lparr> hasTokens = (tokenStorage m \<noteq> None),
       accessTokenValid = isAccessTokenValid m now,
       refreshTokenValid = isRefreshTokenValid m now \<rparr>"

section \<open>The two exchanges, split at their HTTP call\<close>

text \<open>
  The part before the \<open>await\<close>: either the guard throws, which makes the returned promise
  rejected at once, or the request is sent and the promise waits for the response. The
  result is the new promise and the manager with the promise allocated.
\<close>

definition generateTokensFromApiKey :: "AuthManager \<Rightarrow> nat \<times> AuthManager" where
  "generateTokensFromApiKey m =
     (case (if truthy (apiKey m) then apiKey m else None) of
        None \<Rightarrow>
          (length (promises m),
           m\<lparr>promises := promises m @
                [\<lparr>exchange = Generation, phase = Settled (Rejected ApiKeyRequired)\<rparr>]\<rparr>)
      | Some key \<Rightarrow>
          (length (promises m),
           m\<lparr>axios := axios m @
                [Post (scopes m) (accessTokenExpiry m) (refreshTokenExpiry m) key],
             promises := promises m @
                [\<lparr>exchange = Generation, phase = AwaitingResponse\<rparr>]\<rparr>))"

definition refreshAccessToken :: "AuthManager \<Rightarrow> nat \<times> AuthManager" where
  "refreshAccessToken m =
     (case tokenStorage m of
        None \<Rightarrow>
          (length (promises m),
           m\<lparr>promises := promises m @
                [\<lparr>exchange = Refresh, phase = Settled (Rejected NoTokenStorage)\<rparr>]\<rparr>)
      | Some ts \<Rightarrow>
          (length (promises m),
           m\<lparr>axios := axios m @ [Put (''Bearer '' @ refreshToken ts)],
             promises := promises m @
                [\<lparr>exchange = Refresh, phase = AwaitingResponse\<rparr>]\<rparr>))"

text \<open>
  The part after the \<open>await\<close>, run when the HTTP call has fulfilled (\<open>Inr\<close>) or rejected
  (\<open>Inl\<close>) at instant \<open>now\<close>: how the exchange settles, and the manager afterwards.
  The \<open>catch\<close> block of the generation only logs and rethrows. The \<open>try\<close> block of the
  refresh writes through \<open>this.tokenStorage\<close> as it is at that moment; when it is
  \<open>undefined\<close> the write throws inside the \<open>try\<close>, so the \<open>catch\<close> block runs.
\<close>

fun generateTokensFromApiKey_resume ::
  "AuthManager \<Rightarrow> error + TokenResponse \<Rightarrow> int \<Rightarrow> settled \<times> AuthManager" where
  "generateTokensFromApiKey_resume m (Inr response) now =
     (Fulfilled (resp_accessToken response),
      m\<lparr>tokenStorage := Some
          \<lparr> accessToken = resp_accessToken response,
            refreshToken = resp_refreshToken response,
            accessTokenExpiresAt = now + resp_accessTokenExpiry response,
            refreshTokenExpiresAt = now + resp_refreshTokenExpiry response \<rparr>\<rparr>)"
| "generateTokensFromApiKey_resume m (Inl err) now = (Rejected err, m)"

fun refreshAccessToken_resume ::
  "AuthManager \<Rightarrow> error + RefreshTokenResponse \<Rightarrow> int \<Rightarrow> settled \<times> AuthManager" where
  "refreshAccessToken_resume m (Inr response) now =
     (case tokenStorage m of
        None \<Rightarrow> (Rejected TypeError, m\<lparr>tokenStorage := None\<rparr>)
      | Some ts \<Rightarrow>
          (Fulfilled (refreshed_accessToken response),
           m\<lparr>tokenStorage := Some
               (ts\<lparr>accessToken := refreshed_accessToken response,
                   accessTokenExpiresAt := now + accessTokenExpiry m\<rparr>)\<rparr>))"
| "refreshAccessToken_resume m (Inl err) now = (Rejected err, m\<lparr>tokenStorage := None\<rparr>)"

section \<open>Obtaining an access token and producing the header\<close>

text \<open>
  \<open>getAccessToken\<close> has no suspension point. It returns either a value of type
  \<open>string | null\<close> (the stored access token as it is) or one of the manager's promises,
  which the caller then awaits.
\<close>

datatype access = Value "string option" | Promise nat

definition getAccessToken :: "AuthManager \<Rightarrow> int \<Rightarrow> access \<times> AuthManager" where
  "getAccessToken m now =
     (case tokenRefreshPromise m of
        Some p \<Rightarrow> (Promise p, m)
      | None \<Rightarrow>
          (case (if isAccessTokenValid m now then tokenStorage m else None) of
             Some ts \<Rightarrow> (Value (accessToken ts), m)
           | None \<Rightarrow>
               if tokenStorage m \<noteq> None \<and> isRefreshTokenValid m now then
                 (case refreshAccessToken m of
                    (p, m') \<Rightarrow> (Promise p, m'\<lparr>tokenRefreshPromise := Some p\<rparr>))
               else
                 (case generateTokensFromApiKey m of
                    (p, m') \<Rightarrow> (Promise p, m'\<lparr>tokenRefreshPromise := Some p\<rparr>))))"

text \<open>
  What \<open>await this.getAccessToken()\<close> delivers to the rest of \<open>getAuthHeader\<close>: a value, or
  the exception of a rejected promise; there is no \<open>try\<close> around the \<open>await\<close>. The rest of
  the method reads \<open>this.apiKey\<close>, which is never assigned after construction and was found
  truthy before the \<open>await\<close>: it is passed on as \<open>key\<close>.
\<close>

datatype awaited = Got "string option" | Thrown error

fun delivered :: "settled \<Rightarrow> awaited" where
  "delivered (Fulfilled tok) = Got tok"
| "delivered (Rejected err) = Thrown err"

fun getAuthHeader_resume :: "string \<Rightarrow> awaited \<Rightarrow> error + headers" where
  "getAuthHeader_resume key (Thrown err) = Inl err"
| "getAuthHeader_resume key (Got tok) =
     (case (if truthy tok then tok else None) of
        Some t \<Rightarrow> Inr [(''Authorization'', ''Bearer '' @ t)]
      | None \<Rightarrow> Inr [(''Authorization'', key)])"

text \<open>
  A call of \<open>getAuthHeader\<close> at instant \<open>now\<close> either completes (\<open>Done\<close>, with the headers
  or with the exception it propagates) or is suspended on a promise (\<open>Awaits\<close>). When
  \<open>getAccessToken\<close> returned a value, the \<open>await\<close> resumes the method with that value and
  the rest reads nothing that can change in between, so the call is completed in the same
  step. The clock is read once per call: the reads of \<open>Date.now()\<close> within one synchronous
  run are taken to give the same instant.
\<close>

datatype outcome = Done "error + headers" | Awaits nat

definition getAuthHeader :: "AuthManager \<Rightarrow> int \<Rightarrow> outcome \<times> AuthManager" where
  "getAuthHeader m now =
     (case (if truthy (apiKey m) then apiKey m else None) of
        None \<Rightarrow> (Done (Inr []), m)
      | Some key \<Rightarrow>
          if Ingestion \<in> set (scopes m) \<and> length (scopes m) = 1 then
            (Done (Inr [(''Authorization'', key)]), m)
          else
            (case getAccessToken m now of
               (Value v, m') \<Rightarrow> (Done (getAuthHeader_resume key (Got v)), m')
             | (Promise p, m') \<Rightarrow> (Awaits p, m')))"

text \<open>
  The result a suspended call ends with, once the promise it awaits is settled;
  \<open>None\<close> while the call is still suspended.
\<close>

definition getAuthHeader_result :: "AuthManager \<Rightarrow> outcome \<Rightarrow> (error + headers) option" where
  "getAuthHeader_result m out =
     (case out of
        Done r \<Rightarrow> Some r
      | Awaits p \<Rightarrow>
          (case apiKey m of
             None \<Rightarrow> None
           | Some key \<Rightarrow>
               if p < length (promises m) then
                 (case phase (promises m ! p) of
                    Finalized s \<Rightarrow> Some (getAuthHeader_resume key (delivered s))
                  | _ \<Rightarrow> None)
               else None))"

section \<open>Cooperative scheduling: the steps of one manager\<close>

text \<open>
  Between two suspension points nothing else runs, so an execution of the manager is a
  sequence of atomic steps: a caller invokes \<open>getAuthHeader\<close> or \<open>clearTokens\<close>, the HTTP
  call of a waiting exchange completes and the exchange runs to its end, or the
  \<open>finally\<close> callback of a settled exchange runs. A step that is not enabled in the
  current state gives \<open>None\<close>.
\<close>

datatype action =
    CallGetAuthHeader int
  | CallClearTokens
  | GenerationResponse nat "error + TokenResponse" int
  | RefreshResponse nat "error + RefreshTokenResponse" int
  | FinallyCallback nat

definition settle :: "nat \<Rightarrow> settled \<times> AuthManager \<Rightarrow> AuthManager" where
  "settle p r =
     (snd r)\<lparr>promises := (promises (snd r))[p := (promises (snd r) ! p)\<lparr>phase := Settled (fst r)\<rparr>]\<rparr>"

definition awaiting :: "AuthManager \<Rightarrow> nat \<Rightarrow> exchange \<Rightarrow> bool" where
  "awaiting m p x =
     (p < length (promises m) \<and> exchange (promises m ! p) = x
        \<and> phase (promises m ! p) = AwaitingResponse)"

fun step :: "AuthManager \<Rightarrow> action \<Rightarrow> AuthManager option" where
  "step m (CallGetAuthHeader now) = Some (snd (getAuthHeader m now))"
| "step m CallClearTokens = Some (clearTokens m)"
| "step m (GenerationResponse p r now) =
     (if awaiting m p Generation
      then Some (settle p (generateTokensFromApiKey_resume m r now)) else None)"
| "step m (RefreshResponse p r now) =
     (if awaiting m p Refresh
      then Some (settle p (refreshAccessToken_resume m r now)) else None)"
| "step m (FinallyCallback p) =
     (if p < length (promises m) then
        (case phase (promises m ! p) of
           Settled s \<Rightarrow>
             Some (m\<lparr>tokenRefreshPromise := None,
                     promises := (promises m)[p := (promises m ! p)\<lparr>phase := Finalized s\<rparr>]\<rparr>)
         | _ \<Rightarrow> None)
      else None)"

fun run :: "AuthManager \<Rightarrow> action list \<Rightarrow> AuthManager option" where
  "run m [] = Some m"
| "run m (a # as) = (case step m a of None \<Rightarrow> None | Some m' \<Rightarrow> run m' as)"

section \<open>Outstanding acquisitions\<close>

text \<open>
  An acquisition is outstanding from the moment its exchange is started until its
  \<open>finally\<close> callback has run. \<open>outstanding\<close> lists the promises in that state;
  \<open>marker_inv\<close> says that \<open>tokenRefreshPromise\<close> names exactly those.
\<close>

fun finalized :: "phase \<Rightarrow> bool" where
  "finalized (Finalized s) = True"
| "finalized _ = False"

definition outstanding :: "AuthManager \<Rightarrow> nat list" where
  "outstanding m = filter (\<lambda>p. \<not> finalized (phase (promises m ! p))) [0..<length (promises m)]"

definition marker_inv :: "AuthManager \<Rightarrow> bool" where
  "marker_inv m =
     ((\<forall>p. tokenRefreshPromise m = Some p \<longrightarrow> p < length (promises m)) \<and>
      (\<forall>p < length (promises m).
         (\<not> finalized (phase (promises m ! p))) = (tokenRefreshPromise m = Some p)))"

text \<open>
  A manager restricted to the ingestion scope that has never started an acquisition.
\<close>

definition idle_ingestion :: "string \<Rightarrow> AuthManager \<Rightarrow> bool" where
  "idle_ingestion key m =
     (apiKey m = Some key \<and> scopes m = [Ingestion] \<and> tokenStorage m = None
        \<and> tokenRefreshPromise m = None \<and> axios m = [] \<and> promises m = [])"

section \<open>Properties of executions\<close>

text \<open>
  \<open>lifetimes_respected\<close>: the response handled by a step keeps the access expiry within
  the refresh expiry (a generation response declares an access lifetime no longer than its
  refresh lifetime; a fulfilled refresh is handled early enough for the configured access
  lifetime to end before the stored refresh expiry). \<open>respected\<close> asks it of every step of
  an execution, \<open>expiry_ordered\<close> is the resulting order of the two stored instants.
\<close>

fun lifetimes_respected :: "AuthManager \<Rightarrow> action \<Rightarrow> bool" where
  "lifetimes_respected m (GenerationResponse p (Inr response) now) =
     (resp_accessTokenExpiry response \<le> resp_refreshTokenExpiry response)"
| "lifetimes_respected m (RefreshResponse p (Inr response) now) =
     (case tokenStorage m of
        None \<Rightarrow> True
      | Some ts \<Rightarrow> now + accessTokenExpiry m \<le> refreshTokenExpiresAt ts)"
| "lifetimes_respected m _ = True"

fun respected :: "AuthManager \<Rightarrow> action list \<Rightarrow> bool" where
  "respected m [] = True"
| "respected m (a # as) =
     (lifetimes_respected m a \<and>
      (case step m a of None \<Rightarrow> True | Some m' \<Rightarrow> respected m' as))"

definition expiry_ordered :: "AuthManager \<Rightarrow> bool" where
  "expiry_ordered m =
     (case tokenStorage m of
        None \<Rightarrow> True
      | Some ts \<Rightarrow> accessTokenExpiresAt ts \<le> refreshTokenExpiresAt ts)"

text \<open>
  The access tokens the authentication endpoint returned in the fulfilled responses of an
  execution, and the invariant that every stored access token and every value a promise is
  fulfilled with is one of a given set.
\<close>

fun returned_tokens :: "action list \<Rightarrow> string option list" where
  "returned_tokens [] = []"
| "returned_tokens (GenerationResponse p (Inr response) now # as) =
     resp_accessToken response # returned_tokens as"
| "returned_tokens (RefreshResponse p (Inr response) now # as) =
     refreshed_accessToken response # returned_tokens as"
| "returned_tokens (a # as) = returned_tokens as"

fun fulfilled_with :: "phase \<Rightarrow> string option option" where
  "fulfilled_with (Settled (Fulfilled tok)) = Some tok"
| "fulfilled_with (Finalized (Fulfilled tok)) = Some tok"
| "fulfilled_with _ = None"

definition tokens_from :: "string option set \<Rightarrow> AuthManager \<Rightarrow> bool" where
  "tokens_from S m =
     ((\<forall>ts. tokenStorage m = Some ts \<longrightarrow> accessToken ts \<in> S) \<and>
      (\<forall>a \<in> set (promises m). \<forall>tok. fulfilled_with (phase a) = Some tok \<longrightarrow> tok \<in> S))"

text \<open>
  The instant at which a step reads the clock, executions whose instants never decrease
  (starting from \<open>t\<close>), and the invariant that a pending acquisition, whenever the stored
  access token would still be valid at \<open>t\<close>, has already been fulfilled with that token.
\<close>

fun instant :: "action \<Rightarrow> int option" where
  "instant (CallGetAuthHeader now) = Some now"
| "instant CallClearTokens = None"
| "instant (GenerationResponse p r now) = Some now"
| "instant (RefreshResponse p r now) = Some now"
| "instant (FinallyCallback p) = None"

fun chronological :: "int \<Rightarrow> action list \<Rightarrow> bool" where
  "chronological t [] = True"
| "chronological t (a # as) =
     (case instant a of
        None \<Rightarrow> chronological t as
      | Some now \<Rightarrow> t \<le> now \<and> chronological now as)"

definition pending_is_cached :: "int \<Rightarrow> AuthManager \<Rightarrow> bool" where
  "pending_is_cached t m =
     (case (tokenRefreshPromise m, tokenStorage m) of
        (Some p, Some ts) \<Rightarrow>
           t < accessTokenExpiresAt ts - 60000 \<longrightarrow>
             p < length (promises m)
               \<and> phase (promises m ! p) = Settled (Fulfilled (accessToken ts))
      | _ \<Rightarrow> True)"

section \<open>The marker tracks the outstanding acquisition\<close>

lemma marker_inv_new: "marker_inv (new_AuthManager k s a r)"
  by (simp add: marker_inv_def new_AuthManager_def)

lemma getAccessToken_marker_inv:
  "marker_inv m \<Longrightarrow> marker_inv (snd (getAccessToken m now))"
  by (auto simp: marker_inv_def getAccessToken_def refreshAccessToken_def
      generateTokensFromApiKey_def nth_append split: option.splits if_splits)

lemma getAuthHeader_marker_inv:
  "marker_inv m \<Longrightarrow> marker_inv (snd (getAuthHeader m now))"
  using getAccessToken_marker_inv[of m now]
  by (auto simp: getAuthHeader_def split: option.splits if_splits prod.splits access.splits)

lemma step_marker_inv:
  "marker_inv m \<Longrightarrow> step m a = Some m' \<Longrightarrow> marker_inv m'"
proof (cases a)
  case (CallGetAuthHeader now)
  then show "marker_inv m \<Longrightarrow> step m a = Some m' \<Longrightarrow> marker_inv m'"
    using getAuthHeader_marker_inv[of m now] by auto
next
  case CallClearTokens
  then show "marker_inv m \<Longrightarrow> step m a = Some m' \<Longrightarrow> marker_inv m'"
    by (auto simp: marker_inv_def clearTokens_def)
next
  case (GenerationResponse p r now)
  then show "marker_inv m \<Longrightarrow> step m a = Some m' \<Longrightarrow> marker_inv m'"
    by (cases r) (auto simp: marker_inv_def settle_def awaiting_def nth_list_update split: if_splits)
next
  case (RefreshResponse p r now)
  then show "marker_inv m \<Longrightarrow> step m a = Some m' \<Longrightarrow> marker_inv m'"
    by (cases r) (auto simp: marker_inv_def settle_def awaiting_def nth_list_update split: if_splits option.splits)
next
  case (FinallyCallback p)
  show "marker_inv m \<Longrightarrow> step m a = Some m' \<Longrightarrow> marker_inv m'"
  proof -
    assume inv: "marker_inv m" and st: "step m a = Some m'"
    from st FinallyCallback obtain s where
      p: "p < length (promises m)" and ph: "phase (promises m ! p) = Settled s" and
      m': "m' = m\<lparr>tokenRefreshPromise := None,
                    promises := (promises m)[p := (promises m ! p)\<lparr>phase := Finalized s\<rparr>]\<rparr>"
      by (auto split: if_splits phase.splits)
    from inv have all: "\<forall>q < length (promises m).
        (\<not> finalized (phase (promises m ! q))) = (tokenRefreshPromise m = Some q)"
      by (simp add: marker_inv_def)
    from all p have "(\<not> finalized (phase (promises m ! p))) = (tokenRefreshPromise m = Some p)"
      by blast
    with ph have mk: "tokenRefreshPromise m = Some p"
      by simp
    have "\<forall>q < length (promises m). q \<noteq> p \<longrightarrow> finalized (phase (promises m ! q))"
      using all mk by auto
    then show "marker_inv m'"
      using p by (simp add: marker_inv_def m' nth_list_update)
  qed
qed

lemma run_marker_inv:
  "marker_inv m \<Longrightarrow> run m as = Some m' \<Longrightarrow> marker_inv m'"
  by (induction as arbitrary: m) (auto split: option.splits dest: step_marker_inv)

lemma filter_upt_empty: "(\<forall>i<n. \<not> P i) \<Longrightarrow> filter P [0..<n] = []"
  by (induction n) auto

lemma filter_upt_single:
  "p < n \<Longrightarrow> (\<forall>i<n. P i = (i = p)) \<Longrightarrow> filter P [0..<n] = [p]"
proof (induction n)
  case 0
  then show ?case by simp
next
  case (Suc n)
  show ?case
  proof (cases "p = n")
    case True
    with Suc.prems have "filter P [0..<n] = []" by (intro filter_upt_empty) auto
    with True Suc.prems show ?thesis by simp
  next
    case False
    with Suc.prems have "p < n" by simp
    moreover from Suc.prems have "\<forall>i<n. P i = (i = p)" by simp
    ultimately have "filter P [0..<n] = [p]" by (rule Suc.IH)
    moreover from Suc.prems False have "\<not> P n" by auto
    ultimately show ?thesis by simp
  qed
qed

lemma marker_inv_outstanding:
  "marker_inv m \<Longrightarrow>
     outstanding m = (case tokenRefreshPromise m of None \<Rightarrow> [] | Some p \<Rightarrow> [p])"
  unfolding outstanding_def marker_inv_def
  by (cases "tokenRefreshPromise m") (auto intro!: filter_upt_empty filter_upt_single)

lemma getAccessToken_pending:
  "tokenRefreshPromise m = Some p \<Longrightarrow> getAccessToken m now = (Promise p, m)"
  by (simp add: getAccessToken_def)

lemma getAuthHeader_pending:
  "tokenRefreshPromise m = Some p \<Longrightarrow> truthy (apiKey m) \<Longrightarrow>
   \<not> (Ingestion \<in> set (scopes m) \<and> length (scopes m) = 1) \<Longrightarrow>
   getAuthHeader m now = (Awaits p, m)"
  by (cases "apiKey m") (auto simp: getAuthHeader_def getAccessToken_pending)

lemma marker_unfinished:
  assumes "marker_inv m" "tokenRefreshPromise m = Some p"
  shows "p < length (promises m) \<and> \<not> finalized (phase (promises m ! p))"
proof -
  from assms have p: "p < length (promises m)" by (simp add: marker_inv_def)
  from assms(1) have "\<forall>q < length (promises m).
        (\<not> finalized (phase (promises m ! q))) = (tokenRefreshPromise m = Some q)"
    by (simp add: marker_inv_def)
  with p have "(\<not> finalized (phase (promises m ! p))) = (tokenRefreshPromise m = Some p)"
    by blast
  with assms(2) p show ?thesis by simp
qed

lemma finally_clears:
  "p < length (promises m) \<Longrightarrow> phase (promises m ! p) = Settled s \<Longrightarrow>
   \<exists>m'. step m (FinallyCallback p) = Some m' \<and> tokenRefreshPromise m' = None"
  by simp

lemma generation_response_settles:
  "awaiting m p Generation \<Longrightarrow>
   \<exists>m' s. step m (GenerationResponse p r now) = Some m' \<and> p < length (promises m')
      \<and> phase (promises m' ! p) = Settled s"
  by (cases r) (auto simp: settle_def awaiting_def)

lemma refresh_response_settles:
  "awaiting m p Refresh \<Longrightarrow>
   \<exists>m' s. step m (RefreshResponse p r now) = Some m' \<and> p < length (promises m')
      \<and> phase (promises m' ! p) = Settled s"
  by (cases r) (auto simp: settle_def awaiting_def split: option.splits)

lemma marker_cleared_after_completion:
  assumes "marker_inv m" "tokenRefreshPromise m = Some p"
  shows "(\<exists>s m'. phase (promises m ! p) = Settled s
            \<and> step m (FinallyCallback p) = Some m' \<and> tokenRefreshPromise m' = None)
       \<or> (awaiting m p Generation \<and>
            (\<forall>r now. \<exists>m1 m2. step m (GenerationResponse p r now) = Some m1
                \<and> step m1 (FinallyCallback p) = Some m2 \<and> tokenRefreshPromise m2 = None))
       \<or> (awaiting m p Refresh \<and>
            (\<forall>r now. \<exists>m1 m2. step m (RefreshResponse p r now) = Some m1
                \<and> step m1 (FinallyCallback p) = Some m2 \<and> tokenRefreshPromise m2 = None))"
proof -
  from marker_unfinished[OF assms] have p: "p < length (promises m)"
    and nf: "\<not> finalized (phase (promises m ! p))" by simp_all
  show ?thesis
  proof (cases "phase (promises m ! p)")
    case AwaitingResponse
    show ?thesis
    proof (cases "exchange (promises m ! p)")
      case Generation
      with AwaitingResponse p have aw: "awaiting m p Generation" by (simp add: awaiting_def)
      have "\<exists>m1 m2. step m (GenerationResponse p r now) = Some m1
                \<and> step m1 (FinallyCallback p) = Some m2 \<and> tokenRefreshPromise m2 = None" for r now
      proof -
        from generation_response_settles[OF aw, of r now] obtain m1 s where
          1: "step m (GenerationResponse p r now) = Some m1" "p < length (promises m1)"
             "phase (promises m1 ! p) = Settled s" by blast
        from finally_clears[OF 1(2,3)] 1(1) show ?thesis by blast
      qed
      with aw show ?thesis by blast
    next
      case Refresh
      with AwaitingResponse p have aw: "awaiting m p Refresh" by (simp add: awaiting_def)
      have "\<exists>m1 m2. step m (RefreshResponse p r now) = Some m1
                \<and> step m1 (FinallyCallback p) = Some m2 \<and> tokenRefreshPromise m2 = None" for r now
      proof -
        from refresh_response_settles[OF aw, of r now] obtain m1 s where
          1: "step m (RefreshResponse p r now) = Some m1" "p < length (promises m1)"
             "phase (promises m1 ! p) = Settled s" by blast
        from finally_clears[OF 1(2,3)] 1(1) show ?thesis by blast
      qed
      with aw show ?thesis by blast
    qed
  next
    case (Settled s)
    from finally_clears[OF p Settled] Settled show ?thesis by blast
  next
    case (Finalized s)
    with nf show ?thesis by simp
  qed
qed

section \<open>Branches of \<open>getAccessToken\<close> and \<open>getAuthHeader\<close>\<close>

lemmas exec_defs = new_AuthManager_def getAuthHeader_def getAccessToken_def
  isAccessTokenValid_def isRefreshTokenValid_def generateTokensFromApiKey_def
  refreshAccessToken_def settle_def awaiting_def clearTokens_def getAuthHeader_result_def
  getTokenStatus_def

lemma getAccessToken_starts_refresh:
  assumes "tokenRefreshPromise m = None" "tokenStorage m = Some ts"
    "\<not> isAccessTokenValid m now" "isRefreshTokenValid m now"
  shows "getAccessToken m now =
     (Promise (length (promises m)),
      m\<lparr>axios := axios m @ [Put (''Bearer '' @ refreshToken ts)],
        promises := promises m @ [\<lparr>exchange = Refresh, phase = AwaitingResponse\<rparr>],
        tokenRefreshPromise := Some (length (promises m))\<rparr>)"
  using assms by (simp add: getAccessToken_def refreshAccessToken_def)

lemma getAccessToken_starts_generation:
  assumes "tokenRefreshPromise m = None" "apiKey m = Some key" "key \<noteq> []"
    "\<not> isAccessTokenValid m now" "\<not> isRefreshTokenValid m now"
  shows "getAccessToken m now =
     (Promise (length (promises m)),
      m\<lparr>axios := axios m @ [Post (scopes m) (accessTokenExpiry m) (refreshTokenExpiry m) key],
        promises := promises m @ [\<lparr>exchange = Generation, phase = AwaitingResponse\<rparr>],
        tokenRefreshPromise := Some (length (promises m))\<rparr>)"
  using assms by (simp add: getAccessToken_def generateTokensFromApiKey_def)

lemma getAuthHeader_ingestion_only:
  "apiKey m = Some key \<Longrightarrow> key \<noteq> [] \<Longrightarrow> scopes m = [Ingestion] \<Longrightarrow>
   getAuthHeader m now = (Done (Inr [(''Authorization'', key)]), m)"
  by (simp add: getAuthHeader_def)

lemma step_idle_ingestion:
  "key \<noteq> [] \<Longrightarrow> idle_ingestion key m \<Longrightarrow> step m a = Some m' \<Longrightarrow> idle_ingestion key m'"
  by (cases a)
     (auto simp: idle_ingestion_def getAuthHeader_ingestion_only clearTokens_def awaiting_def)

lemma run_idle_ingestion:
  "key \<noteq> [] \<Longrightarrow> idle_ingestion key m \<Longrightarrow> run m as = Some m' \<Longrightarrow> idle_ingestion key m'"
  by (induction as arbitrary: m) (auto split: option.splits dest: step_idle_ingestion)

lemma getAuthHeader_token_path:
  assumes "apiKey m = Some key" "key \<noteq> []" "length (scopes m) \<noteq> 1"
  shows "getAuthHeader m now =
     (case getAccessToken m now of
        (Value v, m') \<Rightarrow> (Done (getAuthHeader_resume key (Got v)), m')
      | (Promise p, m') \<Rightarrow> (Awaits p, m'))"
  using assms by (simp add: getAuthHeader_def)

section \<open>Order of the stored expiry instants\<close>

lemma getAuthHeader_tokenStorage:
  "tokenStorage (snd (getAuthHeader m now)) = tokenStorage m"
  by (auto simp: getAuthHeader_def getAccessToken_def refreshAccessToken_def
      generateTokensFromApiKey_def split: option.splits)

lemma step_expiry_ordered:
  "expiry_ordered m \<Longrightarrow> lifetimes_respected m a \<Longrightarrow> step m a = Some m' \<Longrightarrow>
   expiry_ordered m'"
proof (cases a)
  case (CallGetAuthHeader now)
  then show "expiry_ordered m \<Longrightarrow> lifetimes_respected m a \<Longrightarrow> step m a = Some m' \<Longrightarrow>
   expiry_ordered m'"
    by (auto simp: expiry_ordered_def getAuthHeader_tokenStorage)
next
  case CallClearTokens
  then show "expiry_ordered m \<Longrightarrow> lifetimes_respected m a \<Longrightarrow> step m a = Some m' \<Longrightarrow>
   expiry_ordered m'"
    by (auto simp: expiry_ordered_def clearTokens_def)
next
  case (GenerationResponse p r now)
  then show "expiry_ordered m \<Longrightarrow> lifetimes_respected m a \<Longrightarrow> step m a = Some m' \<Longrightarrow>
   expiry_ordered m'"
    by (cases r) (auto simp: expiry_ordered_def settle_def split: if_splits)
next
  case (RefreshResponse p r now)
  then show "expiry_ordered m \<Longrightarrow> lifetimes_respected m a \<Longrightarrow> step m a = Some m' \<Longrightarrow>
   expiry_ordered m'"
    by (cases r) (auto simp: expiry_ordered_def settle_def split: if_splits option.splits)
next
  case (FinallyCallback p)
  then show "expiry_ordered m \<Longrightarrow> lifetimes_respected m a \<Longrightarrow> step m a = Some m' \<Longrightarrow>
   expiry_ordered m'"
    by (auto simp: expiry_ordered_def split: if_splits phase.splits)
qed

lemma run_expiry_ordered:
  "expiry_ordered m \<Longrightarrow> respected m as \<Longrightarrow> run m as = Some m' \<Longrightarrow> expiry_ordered m'"
proof (induction as arbitrary: m)
  case Nil
  then show ?case by simp
next
  case (Cons a as)
  from Cons.prems(3) obtain m1 where s: "step m a = Some m1" and r: "run m1 as = Some m'"
    by (auto split: option.splits)
  from Cons.prems(2) s have l: "lifetimes_respected m a" and rs: "respected m1 as"
    by simp_all
  from step_expiry_ordered[OF Cons.prems(1) l s] have "expiry_ordered m1" .
  from Cons.IH[OF this rs r] show ?case .
qed

section \<open>Provenance of access tokens\<close>

lemma in_set_update: "a \<in> set (xs[p := y]) \<Longrightarrow> a = y \<or> a \<in> set xs"
  using set_update_subset_insert[of xs p y] by auto

lemma tokens_from_fulfilled:
  "tokens_from S m \<Longrightarrow> p < length (promises m) \<Longrightarrow>
   fulfilled_with (phase (promises m ! p)) = Some tok \<Longrightarrow> tok \<in> S"
  unfolding tokens_from_def using nth_mem[of p "promises m"] by blast

lemma getAuthHeader_tokens_from:
  "tokens_from S m \<Longrightarrow> tokens_from S (snd (getAuthHeader m now))"
  by (auto simp: tokens_from_def getAuthHeader_def getAccessToken_def refreshAccessToken_def
      generateTokensFromApiKey_def split: option.splits if_splits)

lemma step_tokens_from:
  "tokens_from S m \<Longrightarrow> step m a = Some m' \<Longrightarrow>
   tokens_from (S \<union> set (returned_tokens [a])) m'"
proof (cases a)
  case (CallGetAuthHeader now)
  then show "tokens_from S m \<Longrightarrow> step m a = Some m' \<Longrightarrow>
   tokens_from (S \<union> set (returned_tokens [a])) m'"
    using getAuthHeader_tokens_from[of S m now] by (auto simp: tokens_from_def)
next
  case CallClearTokens
  then show "tokens_from S m \<Longrightarrow> step m a = Some m' \<Longrightarrow>
   tokens_from (S \<union> set (returned_tokens [a])) m'"
    by (auto simp: tokens_from_def clearTokens_def)
next
  case (GenerationResponse p r now)
  then show "tokens_from S m \<Longrightarrow> step m a = Some m' \<Longrightarrow>
   tokens_from (S \<union> set (returned_tokens [a])) m'"
    by (cases r)
       (auto simp: tokens_from_def settle_def split: if_splits dest!: in_set_update)
next
  case (RefreshResponse p r now)
  then show "tokens_from S m \<Longrightarrow> step m a = Some m' \<Longrightarrow>
   tokens_from (S \<union> set (returned_tokens [a])) m'"
    by (cases r)
       (auto simp: tokens_from_def settle_def split: if_splits option.splits
          dest!: in_set_update)
next
  case (FinallyCallback p)
  show "tokens_from S m \<Longrightarrow> step m a = Some m' \<Longrightarrow>
   tokens_from (S \<union> set (returned_tokens [a])) m'"
  proof -
    assume tf: "tokens_from S m" and st: "step m a = Some m'"
    from st FinallyCallback obtain s where
      p: "p < length (promises m)" and ph: "phase (promises m ! p) = Settled s" and
      m': "m' = m\<lparr>tokenRefreshPromise := None,
                    promises := (promises m)[p := (promises m ! p)\<lparr>phase := Finalized s\<rparr>]\<rparr>"
      by (auto split: if_splits phase.splits)
    have "fulfilled_with (Finalized s) = fulfilled_with (phase (promises m ! p))"
      using ph by (cases s) simp_all
    with tf p have "\<forall>tok. fulfilled_with (Finalized s) = Some tok \<longrightarrow> tok \<in> S"
      using tokens_from_fulfilled[of S m p] by simp
    with tf show "tokens_from (S \<union> set (returned_tokens [a])) m'"
      by (auto simp: tokens_from_def m' dest!: in_set_update)
  qed
qed

lemma returned_tokens_Cons:
  "set (returned_tokens (a # as)) = set (returned_tokens [a]) \<union> set (returned_tokens as)"
  by (induction "a # as" rule: returned_tokens.induct) auto

lemma run_tokens_from:
  "tokens_from S m \<Longrightarrow> run m as = Some m' \<Longrightarrow>
   tokens_from (S \<union> set (returned_tokens as)) m'"
proof (induction as arbitrary: m S)
  case Nil
  then show ?case by simp
next
  case (Cons a as)
  from Cons.prems(2) obtain m1 where s: "step m a = Some m1" and r: "run m1 as = Some m'"
    by (auto split: option.splits)
  from step_tokens_from[OF Cons.prems(1) s]
  have "tokens_from (S \<union> set (returned_tokens [a])) m1" .
  from Cons.IH[OF this r]
  have "tokens_from (S \<union> set (returned_tokens [a]) \<union> set (returned_tokens as)) m'" .
  then show ?case
    by (simp add: returned_tokens_Cons[of a as] Un_assoc)
qed

lemma getAccessToken_value:
  "fst (getAccessToken m now) = Value v \<Longrightarrow>
   \<exists>ts. tokenStorage m = Some ts \<and> v = accessToken ts"
  by (auto simp: getAccessToken_def refreshAccessToken_def generateTokensFromApiKey_def
      split: option.splits if_splits)

section \<open>A pending acquisition and a valid stored token\<close>

lemma pending_is_cached_later:
  "pending_is_cached t m \<Longrightarrow> t \<le> t' \<Longrightarrow> pending_is_cached t' m"
  by (auto simp: pending_is_cached_def split: option.splits)

lemma getAuthHeader_pending_is_cached:
  "pending_is_cached t m \<Longrightarrow> t \<le> now \<Longrightarrow> pending_is_cached now (snd (getAuthHeader m now))"
  by (auto simp: pending_is_cached_def getAuthHeader_def getAccessToken_def
      refreshAccessToken_def generateTokensFromApiKey_def isAccessTokenValid_def
      split: option.splits if_splits)

lemma awaiting_is_marker:
  "marker_inv m \<Longrightarrow> awaiting m p x \<Longrightarrow> tokenRefreshPromise m = Some p"
proof -
  assume inv: "marker_inv m" and a: "awaiting m p x"
  then have p: "p < length (promises m)" and "\<not> finalized (phase (promises m ! p))"
    by (simp_all add: awaiting_def)
  moreover from inv have "\<forall>q < length (promises m).
      (\<not> finalized (phase (promises m ! q))) = (tokenRefreshPromise m = Some q)"
    by (simp add: marker_inv_def)
  ultimately show "tokenRefreshPromise m = Some p" by blast
qed

lemma step_pending_is_cached:
  assumes "marker_inv m" "pending_is_cached t m" "step m a = Some m'"
    "case instant a of None \<Rightarrow> t' = t | Some now \<Rightarrow> t \<le> now \<and> t' = now"
  shows "pending_is_cached t' m'"
proof (cases a)
  case (CallGetAuthHeader now)
  with assms show ?thesis
    using getAuthHeader_pending_is_cached[of t m now] by auto
next
  case CallClearTokens
  with assms show ?thesis
    by (auto simp: pending_is_cached_def clearTokens_def split: option.splits)
next
  case (GenerationResponse p r now)
  with assms(3) have aw: "awaiting m p Generation" by (auto split: if_splits)
  from awaiting_is_marker[OF assms(1) aw] have mk: "tokenRefreshPromise m = Some p" .
  from aw have ph: "p < length (promises m)" "phase (promises m ! p) = AwaitingResponse"
    by (simp_all add: awaiting_def)
  from assms(4) GenerationResponse have t: "t \<le> now" "t' = now" by simp_all
  show ?thesis
  proof (cases r)
    case (Inl e)
    with assms(2,3) GenerationResponse aw mk ph t show ?thesis
      by (auto simp: pending_is_cached_def settle_def split: option.splits)
  next
    case (Inr d)
    with assms(3) GenerationResponse aw mk ph t show ?thesis
      by (auto simp: pending_is_cached_def settle_def split: option.splits)
  qed
next
  case (RefreshResponse p r now)
  with assms(3) have aw: "awaiting m p Refresh" by (auto split: if_splits)
  from awaiting_is_marker[OF assms(1) aw] have mk: "tokenRefreshPromise m = Some p" .
  from aw have ph: "p < length (promises m)" "phase (promises m ! p) = AwaitingResponse"
    by (simp_all add: awaiting_def)
  from assms(4) RefreshResponse have t: "t \<le> now" "t' = now" by simp_all
  show ?thesis
  proof (cases r)
    case (Inl e)
    with assms(3) RefreshResponse aw show ?thesis
      by (auto simp: pending_is_cached_def settle_def split: option.splits)
  next
    case (Inr d)
    with assms(3) RefreshResponse aw mk ph show ?thesis
      by (cases "tokenStorage m")
         (auto simp: pending_is_cached_def settle_def split: option.splits)
  qed
next
  case (FinallyCallback p)
  with assms(3) show ?thesis
    by (auto simp: pending_is_cached_def split: if_splits phase.splits option.splits)
qed

lemma run_pending_is_cached:
  "marker_inv m \<Longrightarrow> pending_is_cached t m \<Longrightarrow> run m as = Some m' \<Longrightarrow>
   chronological t (as @ [CallGetAuthHeader now]) \<Longrightarrow> pending_is_cached now m'"
proof (induction as arbitrary: m t)
  case Nil
  then show ?case by (auto intro: pending_is_cached_later)
next
  case (Cons a as)
  from Cons.prems(3) obtain m1 where s: "step m a = Some m1" and r: "run m1 as = Some m'"
    by (auto split: option.splits)
  from step_marker_inv[OF Cons.prems(1) s] have inv1: "marker_inv m1" .
  show ?case
  proof (cases "instant a")
    case None
    with Cons.prems(4) have c: "chronological t (as @ [CallGetAuthHeader now])" by simp
    from None have "case instant a of None \<Rightarrow> t = t | Some n \<Rightarrow> t \<le> n \<and> t = n" by simp
    from step_pending_is_cached[OF Cons.prems(1,2) s this]
    have "pending_is_cached t m1" .
    from Cons.IH[OF inv1 this r c] show ?thesis .
  next
    case (Some n)
    with Cons.prems(4) have c: "chronological n (as @ [CallGetAuthHeader now])" and le: "t \<le> n"
      by simp_all
    from Some le have "case instant a of None \<Rightarrow> n = t | Some k \<Rightarrow> t \<le> k \<and> n = k" by simp
    from step_pending_is_cached[OF Cons.prems(1,2) s this]
    have "pending_is_cached n m1" .
    from Cons.IH[OF inv1 this r c] show ?thesis .
  qed
qed

section \<open>Claims\<close>

text \<open>
  C1. The claim is that \<open>getAuthHeader\<close> never rejects when a secret is configured and
  falls back to the raw secret when the acquisition fails. In the code the rejection of the
  awaited promise is not caught: with secret \<open>01-XXXX\<close>, the default scopes and no stored
  pair, the call at instant 0 starts a generation and is suspended on promise 0; when the
  POST is rejected, the call ends by throwing the same error. In general the rest of the
  method turns every rejection into an exception.
\<close>

theorem getAuthHeader_rejects_when_generation_fails:
  "fst (getAuthHeader (new_AuthManager (Some ''01-XXXX'') None None None) 0) = Awaits 0
   \<and> map_option (\<lambda>m. getAuthHeader_result m (Awaits 0))
        (run (new_AuthManager (Some ''01-XXXX'') None None None)
           [CallGetAuthHeader 0,
            GenerationResponse 0 (Inl (RequestFailed ''ECONNREFUSED'')) 1,
            FinallyCallback 0])
      = Some (Some (Inl (RequestFailed ''ECONNREFUSED'')))
   \<and> getAuthHeader_resume key (delivered (Rejected err)) = Inl err"
  by (simp add: exec_defs)

text \<open>
  C2. In every state reachable from a freshly constructed manager, under any interleaving
  of calls, responses and \<open>finally\<close> callbacks, at most one acquisition is outstanding, and
  it is the one named by \<open>tokenRefreshPromise\<close>. A call that finds the marker set is handed
  the same promise and changes nothing (so it sends no request). Whenever the marker is
  set, either the \<open>finally\<close> callback is ready to run and clears it, or the exchange waits
  for its response, and then any response, fulfilled or rejected, followed by the callback
  leaves the marker cleared.
\<close>

theorem single_outstanding_acquisition:
  assumes "run (new_AuthManager key scs accessExp refreshExp) as = Some m"
  shows "length (outstanding m) \<le> 1
       \<and> outstanding m = (case tokenRefreshPromise m of None \<Rightarrow> [] | Some p \<Rightarrow> [p])
       \<and> (\<forall>p x. awaiting m p x \<longrightarrow> tokenRefreshPromise m = Some p)
       \<and> (\<forall>p now. tokenRefreshPromise m = Some p \<longrightarrow>
             getAccessToken m now = (Promise p, m)
           \<and> (truthy (apiKey m) \<and> \<not> (Ingestion \<in> set (scopes m) \<and> length (scopes m) = 1)
                \<longrightarrow> getAuthHeader m now = (Awaits p, m)))
       \<and> (\<forall>p. tokenRefreshPromise m = Some p \<longrightarrow>
             (\<exists>s m'. phase (promises m ! p) = Settled s
                \<and> step m (FinallyCallback p) = Some m' \<and> tokenRefreshPromise m' = None)
           \<or> (awaiting m p Generation \<and>
                (\<forall>r now. \<exists>m1 m2. step m (GenerationResponse p r now) = Some m1
                    \<and> step m1 (FinallyCallback p) = Some m2 \<and> tokenRefreshPromise m2 = None))
           \<or> (awaiting m p Refresh \<and>
                (\<forall>r now. \<exists>m1 m2. step m (RefreshResponse p r now) = Some m1
                    \<and> step m1 (FinallyCallback p) = Some m2 \<and> tokenRefreshPromise m2 = None)))"
proof -
  have inv: "marker_inv m"
    using run_marker_inv[OF marker_inv_new assms] .
  have out: "outstanding m = (case tokenRefreshPromise m of None \<Rightarrow> [] | Some p \<Rightarrow> [p])"
    using marker_inv_outstanding[OF inv] .
  have len: "length (outstanding m) \<le> 1"
    by (simp add: out split: option.splits)
  have aw: "\<forall>p x. awaiting m p x \<longrightarrow> tokenRefreshPromise m = Some p"
  proof (intro allI impI)
    fix p x assume a: "awaiting m p x"
    then have p: "p < length (promises m)" and "\<not> finalized (phase (promises m ! p))"
      by (simp_all add: awaiting_def)
    moreover from inv have "\<forall>q < length (promises m).
        (\<not> finalized (phase (promises m ! q))) = (tokenRefreshPromise m = Some q)"
      by (simp add: marker_inv_def)
    ultimately show "tokenRefreshPromise m = Some p" by blast
  qed
  have pend: "\<forall>p now. tokenRefreshPromise m = Some p \<longrightarrow>
             getAccessToken m now = (Promise p, m)
           \<and> (truthy (apiKey m) \<and> \<not> (Ingestion \<in> set (scopes m) \<and> length (scopes m) = 1)
                \<longrightarrow> getAuthHeader m now = (Awaits p, m))"
    using getAccessToken_pending getAuthHeader_pending by blast
  have clr: "\<forall>p. tokenRefreshPromise m = Some p \<longrightarrow>
             (\<exists>s m'. phase (promises m ! p) = Settled s
                \<and> step m (FinallyCallback p) = Some m' \<and> tokenRefreshPromise m' = None)
           \<or> (awaiting m p Generation \<and>
                (\<forall>r now. \<exists>m1 m2. step m (GenerationResponse p r now) = Some m1
                    \<and> step m1 (FinallyCallback p) = Some m2 \<and> tokenRefreshPromise m2 = None))
           \<or> (awaiting m p Refresh \<and>
                (\<forall>r now. \<exists>m1 m2. step m (RefreshResponse p r now) = Some m1
                    \<and> step m1 (FinallyCallback p) = Some m2 \<and> tokenRefreshPromise m2 = None))"
    using marker_cleared_after_completion[OF inv] by blast
  from len out aw pend clr show ?thesis by blast
qed

theorem single_outstanding_acquisition_witness:
  "\<exists>m. run (new_AuthManager (Some ''01-XXXX'') None None None)
          [CallGetAuthHeader 0, CallGetAuthHeader 1] = Some m
     \<and> outstanding m = [0] \<and> tokenRefreshPromise m = Some 0
     \<and> getAuthHeader m 2 = (Awaits 0, m)
     \<and> length (axios m) = 1
     \<and> (\<forall>r now. \<exists>m1 m2. step m (GenerationResponse 0 r now) = Some m1
            \<and> step m1 (FinallyCallback 0) = Some m2 \<and> tokenRefreshPromise m2 = None)"
proof -
  define m where "m = snd (getAuthHeader (new_AuthManager (Some ''01-XXXX'') None None None) 0)"
  have mk: "tokenRefreshPromise m = Some 0" and ax: "length (axios m) = 1"
    and key: "truthy (apiKey m)" and sc: "length (scopes m) = 3"
    and ph: "phase (promises m ! 0) = AwaitingResponse"
    and ex: "exchange (promises m ! 0) = Generation"
    by (simp_all add: m_def new_AuthManager_def getAuthHeader_def getAccessToken_def
        isAccessTokenValid_def isRefreshTokenValid_def generateTokensFromApiKey_def)
  have again: "getAuthHeader m 1 = (Awaits 0, m)"
    using getAuthHeader_pending[OF mk key] sc by simp
  have r: "run (new_AuthManager (Some ''01-XXXX'') None None None)
          [CallGetAuthHeader 0, CallGetAuthHeader 1] = Some m"
    using again by (simp add: m_def)
  note t = single_outstanding_acquisition[OF r]
  from t mk have out: "outstanding m = [0]" by simp
  from t mk key sc have hd: "getAuthHeader m 2 = (Awaits 0, m)" by simp
  from t mk have "(\<exists>s m'. phase (promises m ! 0) = Settled s
                \<and> step m (FinallyCallback 0) = Some m' \<and> tokenRefreshPromise m' = None)
           \<or> (awaiting m 0 Generation \<and>
                (\<forall>r now. \<exists>m1 m2. step m (GenerationResponse 0 r now) = Some m1
                    \<and> step m1 (FinallyCallback 0) = Some m2 \<and> tokenRefreshPromise m2 = None))
           \<or> (awaiting m 0 Refresh \<and>
                (\<forall>r now. \<exists>m1 m2. step m (RefreshResponse 0 r now) = Some m1
                    \<and> step m1 (FinallyCallback 0) = Some m2 \<and> tokenRefreshPromise m2 = None))"
    by blast
  moreover have "\<not> (\<exists>s. phase (promises m ! 0) = Settled s)"
    using ph by simp
  moreover have "\<not> awaiting m 0 Refresh"
    using ex by (simp add: awaiting_def)
  ultimately have clr: "\<forall>r now. \<exists>m1 m2. step m (GenerationResponse 0 r now) = Some m1
            \<and> step m1 (FinallyCallback 0) = Some m2 \<and> tokenRefreshPromise m2 = None"
    by blast
  from r out mk hd ax clr show ?thesis by blast
qed

text \<open>
  C3. A failed refresh discards the stored pair, but a failed generation leaves the
  storage as it was. With lifetimes 1000 and 5000 the pair generated at instant 0 is stale
  at instant 6000, where the next call starts a second generation; after that generation
  has been rejected and its \<open>finally\<close> callback has run, the stale pair is still stored.
\<close>

theorem failed_generation_keeps_stale_pair:
  "map_option (\<lambda>m. (tokenStorage m, axios m, tokenRefreshPromise m))
        (run (new_AuthManager (Some ''01-XXXX'') None (Some 1000) (Some 5000))
           [CallGetAuthHeader 0,
            GenerationResponse 0
              (Inr \<lparr>resp_accessToken = Some ''A1'', resp_refreshToken = ''R1'',
                    resp_accessTokenExpiry = 1000, resp_refreshTokenExpiry = 5000\<rparr>) 0,
            FinallyCallback 0,
            CallGetAuthHeader 6000,
            GenerationResponse 1 (Inl (RequestFailed ''ECONNREFUSED'')) 6001,
            FinallyCallback 1])
      = Some (Some \<lparr>accessToken = Some ''A1'', refreshToken = ''R1'',
                     accessTokenExpiresAt = 1000, refreshTokenExpiresAt = 5000\<rparr>,
              [Post [Discover, Event, Ingestion] 1000 5000 ''01-XXXX'',
               Post [Discover, Event, Ingestion] 1000 5000 ''01-XXXX''],
              None)
   \<and> tokenStorage (snd (generateTokensFromApiKey_resume m (Inl err) now)) = tokenStorage m
   \<and> tokenStorage (snd (refreshAccessToken_resume m (Inl err) now)) = None"
  by (simp add: exec_defs)

text \<open>
  C4, as stated, fails: a refresh sets the access expiry to the instant of the response
  plus the configured access lifetime, whatever the stored refresh expiry is. With the
  default lifetimes, a pair generated at instant 0 and refreshed at instant 600000000 has
  access expiry 686400000 and refresh expiry 604800000.
\<close>

theorem refresh_extends_access_expiry_counterexample:
  "map_option tokenStorage
     (run (new_AuthManager (Some ''01-XXXX'') None None None)
        [CallGetAuthHeader 0,
         GenerationResponse 0
           (Inr \<lparr>resp_accessToken = Some ''A1'', resp_refreshToken = ''R1'',
                 resp_accessTokenExpiry = 86400000, resp_refreshTokenExpiry = 604800000\<rparr>) 0,
         FinallyCallback 0,
         CallGetAuthHeader 600000000,
         RefreshResponse 1 (Inr \<lparr>refreshed_accessToken = Some ''A2''\<rparr>) 600000000])
   = Some (Some \<lparr>accessToken = Some ''A2'', refreshToken = ''R1'',
                  accessTokenExpiresAt = 686400000, refreshTokenExpiresAt = 604800000\<rparr>)
   \<and> \<not> (686400000::int) \<le> 604800000"
  by (simp add: exec_defs)

text \<open>
  C4, amended. In every state reached by an execution in which each generation response
  declares an access lifetime no longer than its refresh lifetime and each fulfilled
  refresh is handled at an instant \<open>now\<close> with \<open>now + accessTokenExpiry\<close> at most the stored
  refresh expiry, a stored pair has access expiry at most refresh expiry. Generation stores
  both instants from the response, refresh replaces the access token and its expiry only,
  and clearing leaves no pair.
\<close>

theorem expiry_order_when_lifetimes_respected:
  "(run (new_AuthManager key scs accessExp refreshExp) as = Some m
      \<and> respected (new_AuthManager key scs accessExp refreshExp) as
      \<and> tokenStorage m = Some ts
     \<longrightarrow> accessTokenExpiresAt ts \<le> refreshTokenExpiresAt ts)
   \<and> (tokenStorage (snd (generateTokensFromApiKey_resume m0 (Inr response) now)) =
        Some \<lparr>accessToken = resp_accessToken response,
               refreshToken = resp_refreshToken response,
               accessTokenExpiresAt = now + resp_accessTokenExpiry response,
               refreshTokenExpiresAt = now + resp_refreshTokenExpiry response\<rparr>)
   \<and> (tokenStorage m0 = Some ts0 \<longrightarrow>
        tokenStorage (snd (refreshAccessToken_resume m0 (Inr refreshed) now)) =
        Some \<lparr>accessToken = refreshed_accessToken refreshed,
               refreshToken = refreshToken ts0,
               accessTokenExpiresAt = now + accessTokenExpiry m0,
               refreshTokenExpiresAt = refreshTokenExpiresAt ts0\<rparr>)
   \<and> tokenStorage (clearTokens m0) = None"
proof -
  have "expiry_ordered (new_AuthManager key scs accessExp refreshExp)"
    by (simp add: expiry_ordered_def new_AuthManager_def)
  note start = this
  have "run (new_AuthManager key scs accessExp refreshExp) as = Some m
      \<and> respected (new_AuthManager key scs accessExp refreshExp) as
      \<and> tokenStorage m = Some ts
     \<longrightarrow> accessTokenExpiresAt ts \<le> refreshTokenExpiresAt ts"
  proof
    assume a: "run (new_AuthManager key scs accessExp refreshExp) as = Some m
      \<and> respected (new_AuthManager key scs accessExp refreshExp) as
      \<and> tokenStorage m = Some ts"
    then have "expiry_ordered m"
      using run_expiry_ordered[OF start, of as m] by simp
    with a show "accessTokenExpiresAt ts \<le> refreshTokenExpiresAt ts"
      by (simp add: expiry_ordered_def)
  qed
  then show ?thesis by (simp add: clearTokens_def)
qed

theorem expiry_order_when_lifetimes_respected_witness:
  "\<exists>m. run (new_AuthManager (Some ''01-XXXX'') None None None)
        [CallGetAuthHeader 0,
         GenerationResponse 0
           (Inr \<lparr>resp_accessToken = Some ''A1'', resp_refreshToken = ''R1'',
                 resp_accessTokenExpiry = 86400000, resp_refreshTokenExpiry = 604800000\<rparr>) 0,
         FinallyCallback 0,
         CallGetAuthHeader 90000000,
         RefreshResponse 1 (Inr \<lparr>refreshed_accessToken = Some ''A2''\<rparr>) 90000000] = Some m
     \<and> respected (new_AuthManager (Some ''01-XXXX'') None None None)
        [CallGetAuthHeader 0,
         GenerationResponse 0
           (Inr \<lparr>resp_accessToken = Some ''A1'', resp_refreshToken = ''R1'',
                 resp_accessTokenExpiry = 86400000, resp_refreshTokenExpiry = 604800000\<rparr>) 0,
         FinallyCallback 0,
         CallGetAuthHeader 90000000,
         RefreshResponse 1 (Inr \<lparr>refreshed_accessToken = Some ''A2''\<rparr>) 90000000]
     \<and> tokenStorage m = Some \<lparr>accessToken = Some ''A2'', refreshToken = ''R1'',
            accessTokenExpiresAt = 176400000, refreshTokenExpiresAt = 604800000\<rparr>
     \<and> accessTokenExpiresAt \<lparr>accessToken = Some ''A2'', refreshToken = ''R1'',
            accessTokenExpiresAt = 176400000, refreshTokenExpiresAt = 604800000\<rparr>
       \<le> refreshTokenExpiresAt \<lparr>accessToken = Some ''A2'', refreshToken = ''R1'',
            accessTokenExpiresAt = 176400000, refreshTokenExpiresAt = 604800000\<rparr>"
proof -
  let ?as = "[CallGetAuthHeader 0,
         GenerationResponse 0
           (Inr \<lparr>resp_accessToken = Some ''A1'', resp_refreshToken = ''R1'',
                 resp_accessTokenExpiry = 86400000, resp_refreshTokenExpiry = 604800000\<rparr>) 0,
         FinallyCallback 0,
         CallGetAuthHeader 90000000,
         RefreshResponse 1 (Inr \<lparr>refreshed_accessToken = Some ''A2''\<rparr>) 90000000]"
  let ?ts = "\<lparr>accessToken = Some ''A2'', refreshToken = ''R1'',
            accessTokenExpiresAt = 176400000, refreshTokenExpiresAt = 604800000\<rparr>"
  obtain m where r: "run (new_AuthManager (Some ''01-XXXX'') None None None) ?as = Some m"
    and s: "tokenStorage m = Some ?ts"
    by (simp add: exec_defs)
  have o: "respected (new_AuthManager (Some ''01-XXXX'') None None None) ?as"
    by (simp add: exec_defs)
  from expiry_order_when_lifetimes_respected
    [of "Some ''01-XXXX''" None None None ?as m ?ts] r o s
  have "accessTokenExpiresAt ?ts \<le> refreshTokenExpiresAt ?ts" by blast
  with r o s show ?thesis by blast
qed

text \<open>
  C5. The access token is valid iff a pair is stored and \<open>now\<close> is strictly below its
  access expiry minus 60000; the refresh token is valid iff a pair is stored and \<open>now\<close> is
  strictly below its refresh expiry. With a valid access token \<open>getAccessToken\<close> leaves the
  manager as it is (no request, no promise). It returns the stored access token when no
  acquisition is pending, which is when the call reaches the validity check. When one is
  pending, the call is handed the pending promise; in an execution whose clock never goes
  back that promise is then already fulfilled with the stored access token.
\<close>

theorem validity_predicates:
  "(isAccessTokenValid m now \<longleftrightarrow>
      (\<exists>ts. tokenStorage m = Some ts \<and> now < accessTokenExpiresAt ts - 60000))
   \<and> (isRefreshTokenValid m now \<longleftrightarrow>
      (\<exists>ts. tokenStorage m = Some ts \<and> now < refreshTokenExpiresAt ts))
   \<and> (isAccessTokenValid m now \<longrightarrow> snd (getAccessToken m now) = m)
   \<and> (isAccessTokenValid m now \<and> tokenRefreshPromise m = None \<longrightarrow>
        (\<exists>ts. tokenStorage m = Some ts
           \<and> getAccessToken m now = (Value (accessToken ts), m)))
   \<and> (run (new_AuthManager key scs accessExp refreshExp) as = Some m
        \<and> chronological t0 (as @ [CallGetAuthHeader now])
        \<and> isAccessTokenValid m now \<and> tokenRefreshPromise m = Some p \<longrightarrow>
        (\<exists>ts. tokenStorage m = Some ts
           \<and> getAccessToken m now = (Promise p, m)
           \<and> phase (promises m ! p) = Settled (Fulfilled (accessToken ts))))"
proof -
  have local: "(isAccessTokenValid m now \<longleftrightarrow>
      (\<exists>ts. tokenStorage m = Some ts \<and> now < accessTokenExpiresAt ts - 60000))
   \<and> (isRefreshTokenValid m now \<longleftrightarrow>
      (\<exists>ts. tokenStorage m = Some ts \<and> now < refreshTokenExpiresAt ts))
   \<and> (isAccessTokenValid m now \<longrightarrow> snd (getAccessToken m now) = m)
   \<and> (isAccessTokenValid m now \<and> tokenRefreshPromise m = None \<longrightarrow>
        (\<exists>ts. tokenStorage m = Some ts
           \<and> getAccessToken m now = (Value (accessToken ts), m)))"
    by (auto simp: isAccessTokenValid_def isRefreshTokenValid_def getAccessToken_def
        split: option.splits)
  have pending: "run (new_AuthManager key scs accessExp refreshExp) as = Some m
        \<and> chronological t0 (as @ [CallGetAuthHeader now])
        \<and> isAccessTokenValid m now \<and> tokenRefreshPromise m = Some p \<longrightarrow>
        (\<exists>ts. tokenStorage m = Some ts
           \<and> getAccessToken m now = (Promise p, m)
           \<and> phase (promises m ! p) = Settled (Fulfilled (accessToken ts)))"
  proof
    assume a: "run (new_AuthManager key scs accessExp refreshExp) as = Some m
        \<and> chronological t0 (as @ [CallGetAuthHeader now])
        \<and> isAccessTokenValid m now \<and> tokenRefreshPromise m = Some p"
    have "pending_is_cached t0 (new_AuthManager key scs accessExp refreshExp)"
      by (simp add: pending_is_cached_def new_AuthManager_def)
    from run_pending_is_cached[OF marker_inv_new this] a
    have c: "pending_is_cached now m" by blast
    from a obtain ts where ts: "tokenStorage m = Some ts"
      and v: "now < accessTokenExpiresAt ts - 60000"
      by (auto simp: isAccessTokenValid_def split: option.splits)
    from c a ts v have "phase (promises m ! p) = Settled (Fulfilled (accessToken ts))"
      by (simp add: pending_is_cached_def)
    with a ts show "\<exists>ts. tokenStorage m = Some ts
           \<and> getAccessToken m now = (Promise p, m)
           \<and> phase (promises m ! p) = Settled (Fulfilled (accessToken ts))"
      by (simp add: getAccessToken_pending)
  qed
  from local pending show ?thesis by blast
qed

theorem validity_predicates_witness:
  "isAccessTokenValid
     ((new_AuthManager (Some ''01-XXXX'') None None None)
        \<lparr>tokenStorage := Some \<lparr>accessToken = Some ''A1'', refreshToken = ''R1'',
             accessTokenExpiresAt = 86400000, refreshTokenExpiresAt = 604800000\<rparr>\<rparr>) 500
   \<and> getAccessToken
     ((new_AuthManager (Some ''01-XXXX'') None None None)
        \<lparr>tokenStorage := Some \<lparr>accessToken = Some ''A1'', refreshToken = ''R1'',
             accessTokenExpiresAt = 86400000, refreshTokenExpiresAt = 604800000\<rparr>\<rparr>) 500
     = (Value (Some ''A1''),
        (new_AuthManager (Some ''01-XXXX'') None None None)
        \<lparr>tokenStorage := Some \<lparr>accessToken = Some ''A1'', refreshToken = ''R1'',
             accessTokenExpiresAt = 86400000, refreshTokenExpiresAt = 604800000\<rparr>\<rparr>)
   \<and> (\<exists>m. run (new_AuthManager (Some ''01-XXXX'') None None None)
        [CallGetAuthHeader 0,
         GenerationResponse 0
           (Inr \<lparr>resp_accessToken = Some ''A1'', resp_refreshToken = ''R1'',
                 resp_accessTokenExpiry = 86400000, resp_refreshTokenExpiry = 604800000\<rparr>) 1]
          = Some m
        \<and> isAccessTokenValid m 2 \<and> tokenRefreshPromise m = Some 0
        \<and> getAccessToken m 2 = (Promise 0, m)
        \<and> phase (promises m ! 0) = Settled (Fulfilled (Some ''A1'')))"
proof -
  let ?m = "(new_AuthManager (Some ''01-XXXX'') None None None)
        \<lparr>tokenStorage := Some \<lparr>accessToken = Some ''A1'', refreshToken = ''R1'',
             accessTokenExpiresAt = 86400000, refreshTokenExpiresAt = 604800000\<rparr>\<rparr>"
  let ?as = "[CallGetAuthHeader 0,
         GenerationResponse 0
           (Inr \<lparr>resp_accessToken = Some ''A1'', resp_refreshToken = ''R1'',
                 resp_accessTokenExpiry = 86400000, resp_refreshTokenExpiry = 604800000\<rparr>) 1]"
  have one: "isAccessTokenValid ?m 500
     \<and> getAccessToken ?m 500 = (Value (Some ''A1''), ?m)"
    using validity_predicates[of ?m 500]
    by (simp add: new_AuthManager_def)
  obtain m where r: "run (new_AuthManager (Some ''01-XXXX'') None None None) ?as = Some m"
    and v: "isAccessTokenValid m 2" and mk: "tokenRefreshPromise m = Some 0"
    and ts: "tokenStorage m = Some \<lparr>accessToken = Some ''A1'', refreshToken = ''R1'',
             accessTokenExpiresAt = 86400001, refreshTokenExpiresAt = 604800001\<rparr>"
    by (simp add: exec_defs)
  have c: "chronological 0 (?as @ [CallGetAuthHeader 2])" by simp
  from validity_predicates[of m 2 "Some ''01-XXXX''" None None None ?as 0 0] r c v mk
  obtain ts' where "tokenStorage m = Some ts'" "getAccessToken m 2 = (Promise 0, m)"
    "phase (promises m ! 0) = Settled (Fulfilled (accessToken ts'))"
    by blast
  with ts have "getAccessToken m 2 = (Promise 0, m)"
    "phase (promises m ! 0) = Settled (Fulfilled (Some ''A1''))"
    by simp_all
  with r v mk have two: "\<exists>m. run (new_AuthManager (Some ''01-XXXX'') None None None) ?as
          = Some m
        \<and> isAccessTokenValid m 2 \<and> tokenRefreshPromise m = Some 0
        \<and> getAccessToken m 2 = (Promise 0, m)
        \<and> phase (promises m ! 0) = Settled (Fulfilled (Some ''A1''))"
    by blast
  from one two show ?thesis by blast
qed

text \<open>
  C6. From a state with no pending acquisition whose stored access token is no longer
  valid while the refresh token still is, \<open>getAccessToken\<close> sends one PUT carrying the stored
  refresh token as bearer credential. When that call is fulfilled with token \<open>tok\<close> at
  instant \<open>now'\<close>, the stored pair has access token \<open>tok\<close> and access expiry
  \<open>now' + accessTokenExpiry\<close>, with the refresh token and its expiry as before. The same
  holds for the fulfilled response of any waiting refresh that finds a pair stored.
\<close>

theorem refresh_replaces_access_token_only:
  assumes "tokenRefreshPromise m = None" "tokenStorage m = Some ts"
    "\<not> isAccessTokenValid m now" "isRefreshTokenValid m now"
  shows "\<exists>m1. getAccessToken m now = (Promise (length (promises m)), m1)
      \<and> axios m1 = axios m @ [Put (''Bearer '' @ refreshToken ts)]
      \<and> tokenStorage m1 = Some ts
      \<and> tokenRefreshPromise m1 = Some (length (promises m))
      \<and> awaiting m1 (length (promises m)) Refresh
      \<and> (\<forall>tok now'. \<exists>m2.
            step m1 (RefreshResponse (length (promises m))
                       (Inr \<lparr>refreshed_accessToken = tok\<rparr>) now') = Some m2
          \<and> tokenStorage m2 =
              Some \<lparr>accessToken = tok, refreshToken = refreshToken ts,
                     accessTokenExpiresAt = now' + accessTokenExpiry m,
                     refreshTokenExpiresAt = refreshTokenExpiresAt ts\<rparr>
          \<and> phase (promises m2 ! length (promises m)) = Settled (Fulfilled tok)
          \<and> axios m2 = axios m1)
      \<and> (\<forall>m' q ts' response now'.
            awaiting m' q Refresh \<and> tokenStorage m' = Some ts' \<longrightarrow>
            (\<exists>m2. step m' (RefreshResponse q (Inr response) now') = Some m2
               \<and> tokenStorage m2 =
                   Some \<lparr>accessToken = refreshed_accessToken response,
                          refreshToken = refreshToken ts',
                          accessTokenExpiresAt = now' + accessTokenExpiry m',
                          refreshTokenExpiresAt = refreshTokenExpiresAt ts'\<rparr>))"
  unfolding getAccessToken_starts_refresh[OF assms]
  using assms(2) by (simp add: awaiting_def settle_def)

theorem refresh_replaces_access_token_only_witness:
  "\<exists>m1. getAccessToken
     ((new_AuthManager (Some ''01-XXXX'') None None None)
        \<lparr>tokenStorage := Some \<lparr>accessToken = Some ''A1'', refreshToken = ''R1'',
             accessTokenExpiresAt = 86400000, refreshTokenExpiresAt = 604800000\<rparr>\<rparr>) 90000000
       = (Promise 0, m1)
     \<and> axios m1 = [Put ''Bearer R1'']
     \<and> (\<exists>m2. step m1 (RefreshResponse 0 (Inr \<lparr>refreshed_accessToken = Some ''A2''\<rparr>) 90000100)
               = Some m2
          \<and> tokenStorage m2 =
              Some \<lparr>accessToken = Some ''A2'', refreshToken = ''R1'',
                     accessTokenExpiresAt = 176400100, refreshTokenExpiresAt = 604800000\<rparr>)"
proof -
  let ?ts = "\<lparr>accessToken = Some ''A1'', refreshToken = ''R1'',
             accessTokenExpiresAt = 86400000, refreshTokenExpiresAt = 604800000\<rparr>"
  let ?m = "(new_AuthManager (Some ''01-XXXX'') None None None)\<lparr>tokenStorage := Some ?ts\<rparr>"
  have h: "tokenRefreshPromise ?m = None" "tokenStorage ?m = Some ?ts"
    "\<not> isAccessTokenValid ?m 90000000" "isRefreshTokenValid ?m 90000000"
    by (simp_all add: new_AuthManager_def isAccessTokenValid_def isRefreshTokenValid_def)
  have v: "promises ?m = []" "axios ?m = []" "accessTokenExpiry ?m = 86400000"
    by (simp_all add: new_AuthManager_def)
  from refresh_replaces_access_token_only[OF h] obtain m1 where
    1: "getAccessToken ?m 90000000 = (Promise (length (promises ?m)), m1)"
       "axios m1 = axios ?m @ [Put (''Bearer '' @ refreshToken ?ts)]"
    and 2: "\<forall>tok now'. \<exists>m2.
            step m1 (RefreshResponse (length (promises ?m))
                       (Inr \<lparr>refreshed_accessToken = tok\<rparr>) now') = Some m2
          \<and> tokenStorage m2 =
              Some \<lparr>accessToken = tok, refreshToken = refreshToken ?ts,
                     accessTokenExpiresAt = now' + accessTokenExpiry ?m,
                     refreshTokenExpiresAt = refreshTokenExpiresAt ?ts\<rparr>
          \<and> phase (promises m2 ! length (promises ?m)) = Settled (Fulfilled tok)
          \<and> axios m2 = axios m1"
    by blast
  from 2 obtain m2 where
    3: "step m1 (RefreshResponse (length (promises ?m))
                       (Inr \<lparr>refreshed_accessToken = Some ''A2''\<rparr>) 90000100) = Some m2"
       "tokenStorage m2 =
              Some \<lparr>accessToken = Some ''A2'', refreshToken = refreshToken ?ts,
                     accessTokenExpiresAt = 90000100 + accessTokenExpiry ?m,
                     refreshTokenExpiresAt = refreshTokenExpiresAt ?ts\<rparr>"
    by blast
  from 1 3 show ?thesis
    unfolding v by (intro exI[of _ m1] conjI exI[of _ m2]) simp_all
qed

text \<open>
  C7. With a non-empty secret and the scope list \<open>[Ingestion]\<close>, \<open>getAuthHeader\<close> returns
  the secret itself as the Authorization value and leaves the manager unchanged, in every
  state; a manager constructed that way never sends a request, never creates a promise and
  never stores a pair, whatever is done with it. With more than one scope the call goes
  through \<open>getAccessToken\<close>: it awaits the pending promise, or returns the valid stored
  token (a non-empty string) with the Bearer prefix, or starts an acquisition that sends
  one request.
\<close>

theorem ingestion_only_scope_uses_raw_key:
  assumes "key \<noteq> []"
  shows "(apiKey m = Some key \<and> scopes m = [Ingestion] \<longrightarrow>
            getAuthHeader m now = (Done (Inr [(''Authorization'', key)]), m))
       \<and> (run (new_AuthManager (Some key) (Some [Ingestion]) accessExp refreshExp) as = Some m \<longrightarrow>
            getAuthHeader m now = (Done (Inr [(''Authorization'', key)]), m)
          \<and> axios m = [] \<and> promises m = [] \<and> tokenStorage m = None)
       \<and> (apiKey m = Some key \<and> 1 < length (scopes m) \<longrightarrow>
            (\<forall>p. tokenRefreshPromise m = Some p \<longrightarrow> getAuthHeader m now = (Awaits p, m))
          \<and> (\<forall>ts tok. tokenRefreshPromise m = None \<and> tokenStorage m = Some ts
                \<and> isAccessTokenValid m now
                \<and> accessToken ts = Some tok \<and> tok \<noteq> [] \<longrightarrow>
                getAuthHeader m now =
                  (Done (Inr [(''Authorization'', ''Bearer '' @ tok)]), m))
          \<and> (tokenRefreshPromise m = None \<and> \<not> isAccessTokenValid m now \<longrightarrow>
                (\<exists>m'. getAuthHeader m now = (Awaits (length (promises m)), m')
                   \<and> length (axios m') = Suc (length (axios m)))))"
proof -
  have one: "apiKey m = Some key \<and> scopes m = [Ingestion] \<longrightarrow>
            getAuthHeader m now = (Done (Inr [(''Authorization'', key)]), m)"
    using assms by (simp add: getAuthHeader_ingestion_only)
  have two: "run (new_AuthManager (Some key) (Some [Ingestion]) accessExp refreshExp) as = Some m \<longrightarrow>
            getAuthHeader m now = (Done (Inr [(''Authorization'', key)]), m)
          \<and> axios m = [] \<and> promises m = [] \<and> tokenStorage m = None"
  proof
    assume r: "run (new_AuthManager (Some key) (Some [Ingestion]) accessExp refreshExp) as = Some m"
    have "idle_ingestion key (new_AuthManager (Some key) (Some [Ingestion]) accessExp refreshExp)"
      by (simp add: idle_ingestion_def new_AuthManager_def)
    from run_idle_ingestion[OF assms this r] have i: "idle_ingestion key m" .
    then show "getAuthHeader m now = (Done (Inr [(''Authorization'', key)]), m)
          \<and> axios m = [] \<and> promises m = [] \<and> tokenStorage m = None"
      using assms by (simp add: idle_ingestion_def getAuthHeader_ingestion_only)
  qed
  have three: "apiKey m = Some key \<and> 1 < length (scopes m) \<longrightarrow>
            (\<forall>p. tokenRefreshPromise m = Some p \<longrightarrow> getAuthHeader m now = (Awaits p, m))
          \<and> (\<forall>ts tok. tokenRefreshPromise m = None \<and> tokenStorage m = Some ts
                \<and> isAccessTokenValid m now
                \<and> accessToken ts = Some tok \<and> tok \<noteq> [] \<longrightarrow>
                getAuthHeader m now =
                  (Done (Inr [(''Authorization'', ''Bearer '' @ tok)]), m))
          \<and> (tokenRefreshPromise m = None \<and> \<not> isAccessTokenValid m now \<longrightarrow>
                (\<exists>m'. getAuthHeader m now = (Awaits (length (promises m)), m')
                   \<and> length (axios m') = Suc (length (axios m))))"
  proof
    assume a: "apiKey m = Some key \<and> 1 < length (scopes m)"
    then have tp: "getAuthHeader m now =
       (case getAccessToken m now of
          (Value v, m') \<Rightarrow> (Done (getAuthHeader_resume key (Got v)), m')
        | (Promise p, m') \<Rightarrow> (Awaits p, m'))"
      using assms by (intro getAuthHeader_token_path) auto
    have p1: "\<forall>p. tokenRefreshPromise m = Some p \<longrightarrow> getAuthHeader m now = (Awaits p, m)"
      by (simp add: tp getAccessToken_pending)
    have p2: "\<forall>ts tok. tokenRefreshPromise m = None \<and> tokenStorage m = Some ts
                \<and> isAccessTokenValid m now
                \<and> accessToken ts = Some tok \<and> tok \<noteq> [] \<longrightarrow>
                getAuthHeader m now =
                  (Done (Inr [(''Authorization'', ''Bearer '' @ tok)]), m)"
      by (simp add: tp getAccessToken_def)
    have p3: "tokenRefreshPromise m = None \<and> \<not> isAccessTokenValid m now \<longrightarrow>
                (\<exists>m'. getAuthHeader m now = (Awaits (length (promises m)), m')
                   \<and> length (axios m') = Suc (length (axios m)))"
      using a assms
      by (auto simp: tp getAccessToken_def refreshAccessToken_def generateTokensFromApiKey_def
          isRefreshTokenValid_def split: option.splits)
    from p1 p2 p3 show "(\<forall>p. tokenRefreshPromise m = Some p \<longrightarrow> getAuthHeader m now = (Awaits p, m))
          \<and> (\<forall>ts tok. tokenRefreshPromise m = None \<and> tokenStorage m = Some ts
                \<and> isAccessTokenValid m now
                \<and> accessToken ts = Some tok \<and> tok \<noteq> [] \<longrightarrow>
                getAuthHeader m now =
                  (Done (Inr [(''Authorization'', ''Bearer '' @ tok)]), m))
          \<and> (tokenRefreshPromise m = None \<and> \<not> isAccessTokenValid m now \<longrightarrow>
                (\<exists>m'. getAuthHeader m now = (Awaits (length (promises m)), m')
                   \<and> length (axios m') = Suc (length (axios m))))"
      by blast
  qed
  from one two three show ?thesis by blast
qed

theorem ingestion_only_scope_uses_raw_key_witness:
  "\<exists>m. run (new_AuthManager (Some ''01-XXXX'') (Some [Ingestion]) None None)
          [CallGetAuthHeader 0, CallClearTokens, CallGetAuthHeader 5] = Some m
      \<and> getAuthHeader m 7 = (Done (Inr [(''Authorization'', ''01-XXXX'')]), m)
      \<and> axios m = []"
proof -
  have k: "''01-XXXX'' \<noteq> []" by simp
  have r: "run (new_AuthManager (Some ''01-XXXX'') (Some [Ingestion]) None None)
          [CallGetAuthHeader 0, CallClearTokens, CallGetAuthHeader 5]
        = Some (new_AuthManager (Some ''01-XXXX'') (Some [Ingestion]) None None)"
    by (simp add: exec_defs)
  from ingestion_only_scope_uses_raw_key[OF k,
      of "new_AuthManager (Some ''01-XXXX'') (Some [Ingestion]) None None" 7 None None
         "[CallGetAuthHeader 0, CallClearTokens, CallGetAuthHeader 5]"] r
  show ?thesis by simp
qed

text \<open>
  C8, as stated, fails when \<open>clearTokens\<close> runs while an acquisition is pending: the marker
  survives the clearing, and the next call awaits promise 0 without sending a request.
\<close>

theorem clearTokens_with_pending_acquisition_counterexample:
  "map_option (\<lambda>m. (tokenRefreshPromise m, getAuthHeader m 2 = (Awaits 0, m), axios m))
        (run (new_AuthManager (Some ''01-XXXX'') None None None)
           [CallGetAuthHeader 0, CallClearTokens])
      = Some (Some 0, True,
              [Post [Discover, Event, Ingestion] 86400000 604800000 ''01-XXXX''])"
  by (simp add: exec_defs)

text \<open>
  C8, amended. After \<open>clearTokens\<close> the status report is \<open>false\<close> three times. If a
  non-empty secret is configured, the scope list is not the single ingestion scope and no
  acquisition is pending, the next \<open>getAuthHeader\<close> starts a generation: it sends one POST
  with the secret, marks the new promise as the pending acquisition and awaits it.
\<close>

theorem clearTokens_then_generation:
  "getTokenStatus (clearTokens m) now =
       \<lparr>hasTokens = False, accessTokenValid = False, refreshTokenValid = False\<rparr>
   \<and> (apiKey m = Some key \<and> key \<noteq> []
        \<and> \<not> (Ingestion \<in> set (scopes m) \<and> length (scopes m) = 1)
        \<and> tokenRefreshPromise m = None \<longrightarrow>
        (\<exists>m'. getAuthHeader (clearTokens m) now' = (Awaits (length (promises m)), m')
           \<and> axios m' = axios m @
                [Post (scopes m) (accessTokenExpiry m) (refreshTokenExpiry m) key]
           \<and> awaiting m' (length (promises m)) Generation
           \<and> tokenRefreshPromise m' = Some (length (promises m))))"
  by (auto simp: exec_defs)

theorem clearTokens_then_generation_witness:
  "\<exists>m'. getAuthHeader
       (clearTokens ((new_AuthManager (Some ''01-XXXX'') None None None)
          \<lparr>tokenStorage := Some \<lparr>accessToken = Some ''A1'', refreshToken = ''R1'',
             accessTokenExpiresAt = 86400000, refreshTokenExpiresAt = 604800000\<rparr>\<rparr>)) 500
       = (Awaits 0, m')
     \<and> axios m' = [Post [Discover, Event, Ingestion] 86400000 604800000 ''01-XXXX'']"
  using clearTokens_then_generation
    [of "(new_AuthManager (Some ''01-XXXX'') None None None)
          \<lparr>tokenStorage := Some \<lparr>accessToken = Some ''A1'', refreshToken = ''R1'',
             accessTokenExpiresAt = 86400000, refreshTokenExpiresAt = 604800000\<rparr>\<rparr>"
        0 "''01-XXXX''" 500]
  by (auto simp: new_AuthManager_def)

text \<open>
  C9, as stated, fails: the response body is not validated, so a fulfilled generation whose
  body carries no access token makes the pending promise fulfil with \<open>null\<close> and stores
  \<open>null\<close>; the suspended call then takes the raw-secret branch although the endpoint sent
  no empty string, and the next call, which finds the stored token still valid, gets the
  value \<open>null\<close> from \<open>getAccessToken\<close>.
\<close>

theorem getAccessToken_null_counterexample:
  "map_option
     (\<lambda>m. (phase (promises m ! 0), getAuthHeader_result m (Awaits 0),
           fst (getAccessToken m 5), fst (getAuthHeader m 5)))
     (run (new_AuthManager (Some ''01-XXXX'') None None None)
        [CallGetAuthHeader 0,
         GenerationResponse 0
           (Inr \<lparr>resp_accessToken = None, resp_refreshToken = ''R1'',
                 resp_accessTokenExpiry = 86400000, resp_refreshTokenExpiry = 604800000\<rparr>) 1,
         FinallyCallback 0])
   = Some (Finalized (Fulfilled None),
           Some (Inr [(''Authorization'', ''01-XXXX'')]),
           Value None,
           Done (Inr [(''Authorization'', ''01-XXXX'')]))"
  by (simp add: exec_defs)

text \<open>
  C9, amended. In every reachable state, a value returned by \<open>getAccessToken\<close> is the
  stored access token and a promise it returns is fulfilled with an access token or
  rejected; each of these tokens is the access-token field of a fulfilled response of the
  execution, as the endpoint sent it, possibly absent. The rest of \<open>getAuthHeader\<close> takes
  the raw-secret branch exactly when the delivered token is falsy (empty, \<open>null\<close> or
  missing). So the branch is reached only if the endpoint has returned a falsy access
  token: when every returned token is truthy, every delivered value is truthy and the
  header is the Bearer one.
\<close>

theorem getAccessToken_delivers_returned_tokens:
  assumes "run (new_AuthManager key scs accessExp refreshExp) as = Some m"
  shows "(\<forall>v. fst (getAccessToken m now) = Value v \<longrightarrow>
             (\<exists>ts. tokenStorage m = Some ts \<and> v = accessToken ts)
           \<and> v \<in> set (returned_tokens as))
       \<and> (\<forall>p s. p < length (promises m) \<and> phase (promises m ! p) = Finalized s \<longrightarrow>
             (\<forall>v. delivered s = Got v \<longrightarrow> v \<in> set (returned_tokens as)))
       \<and> (\<forall>v. getAuthHeader_resume k (Got v) =
             (case v of
                None \<Rightarrow> Inr [(''Authorization'', k)]
              | Some tok \<Rightarrow>
                  if tok = [] then Inr [(''Authorization'', k)]
                  else Inr [(''Authorization'', ''Bearer '' @ tok)]))
       \<and> ((\<forall>v \<in> set (returned_tokens as). truthy v) \<longrightarrow>
            (\<forall>v. fst (getAccessToken m now) = Value v \<longrightarrow> truthy v)
          \<and> (\<forall>p v. p < length (promises m)
                 \<and> phase (promises m ! p) = Finalized (Fulfilled v) \<longrightarrow>
               (\<exists>tok. v = Some tok \<and> tok \<noteq> []
                  \<and> getAuthHeader_resume k (delivered (Fulfilled v)) =
                      Inr [(''Authorization'', ''Bearer '' @ tok)])))"
proof -
  have "tokens_from {} (new_AuthManager key scs accessExp refreshExp)"
    by (simp add: tokens_from_def new_AuthManager_def)
  from run_tokens_from[OF this assms]
  have tf: "tokens_from (set (returned_tokens as)) m" by simp
  have 1: "\<forall>v. fst (getAccessToken m now) = Value v \<longrightarrow>
             (\<exists>ts. tokenStorage m = Some ts \<and> v = accessToken ts)
           \<and> v \<in> set (returned_tokens as)"
    using getAccessToken_value[of m now] tf by (auto simp: tokens_from_def)
  have 2: "\<forall>p s. p < length (promises m) \<and> phase (promises m ! p) = Finalized s \<longrightarrow>
             (\<forall>v. delivered s = Got v \<longrightarrow> v \<in> set (returned_tokens as))"
  proof (intro allI impI)
    fix p s v
    assume a: "p < length (promises m) \<and> phase (promises m ! p) = Finalized s"
      and d: "delivered s = Got v"
    from d have "s = Fulfilled v" by (cases s) simp_all
    with a tf show "v \<in> set (returned_tokens as)"
      using tokens_from_fulfilled[of "set (returned_tokens as)" m p v] by simp
  qed
  have 3: "\<forall>v. getAuthHeader_resume k (Got v) =
             (case v of
                None \<Rightarrow> Inr [(''Authorization'', k)]
              | Some tok \<Rightarrow>
                  if tok = [] then Inr [(''Authorization'', k)]
                  else Inr [(''Authorization'', ''Bearer '' @ tok)])"
    by (simp split: option.splits)
  have 4: "(\<forall>v \<in> set (returned_tokens as). truthy v) \<longrightarrow>
            (\<forall>v. fst (getAccessToken m now) = Value v \<longrightarrow> truthy v)
          \<and> (\<forall>p v. p < length (promises m)
                 \<and> phase (promises m ! p) = Finalized (Fulfilled v) \<longrightarrow>
               (\<exists>tok. v = Some tok \<and> tok \<noteq> []
                  \<and> getAuthHeader_resume k (delivered (Fulfilled v)) =
                      Inr [(''Authorization'', ''Bearer '' @ tok)]))"
  proof
    assume tr: "\<forall>v \<in> set (returned_tokens as). truthy v"
    have a: "\<forall>v. fst (getAccessToken m now) = Value v \<longrightarrow> truthy v"
      using 1 tr by blast
    have b: "\<forall>p v. p < length (promises m)
                 \<and> phase (promises m ! p) = Finalized (Fulfilled v) \<longrightarrow>
               (\<exists>tok. v = Some tok \<and> tok \<noteq> []
                  \<and> getAuthHeader_resume k (delivered (Fulfilled v)) =
                      Inr [(''Authorization'', ''Bearer '' @ tok)])"
    proof (intro allI impI)
      fix p v assume "p < length (promises m)
                 \<and> phase (promises m ! p) = Finalized (Fulfilled v)"
      with tf have "v \<in> set (returned_tokens as)"
        using tokens_from_fulfilled[of "set (returned_tokens as)" m p v] by simp
      with tr have "truthy v" by blast
      then obtain tok where "v = Some tok" "tok \<noteq> []" by (cases v) simp_all
      then show "\<exists>tok. v = Some tok \<and> tok \<noteq> []
                  \<and> getAuthHeader_resume k (delivered (Fulfilled v)) =
                      Inr [(''Authorization'', ''Bearer '' @ tok)]" by simp
    qed
    from a b show "(\<forall>v. fst (getAccessToken m now) = Value v \<longrightarrow> truthy v)
          \<and> (\<forall>p v. p < length (promises m)
                 \<and> phase (promises m ! p) = Finalized (Fulfilled v) \<longrightarrow>
               (\<exists>tok. v = Some tok \<and> tok \<noteq> []
                  \<and> getAuthHeader_resume k (delivered (Fulfilled v)) =
                      Inr [(''Authorization'', ''Bearer '' @ tok)]))" by blast
  qed
  from 1 2 3 4 show ?thesis by blast
qed

theorem getAccessToken_delivers_returned_tokens_witness:
  "\<exists>m. run (new_AuthManager (Some ''01-XXXX'') None None None)
        [CallGetAuthHeader 0,
         GenerationResponse 0
           (Inr \<lparr>resp_accessToken = Some ''A1'', resp_refreshToken = ''R1'',
                 resp_accessTokenExpiry = 86400000, resp_refreshTokenExpiry = 604800000\<rparr>) 1,
         FinallyCallback 0] = Some m
     \<and> fst (getAccessToken m 5) = Value (Some ''A1'')
     \<and> phase (promises m ! 0) = Finalized (Fulfilled (Some ''A1''))
     \<and> getAuthHeader_resume ''01-XXXX'' (delivered (Fulfilled (Some ''A1'')))
          = Inr [(''Authorization'', ''Bearer A1'')]
     \<and> Some ''A1'' \<in> set (returned_tokens
        [CallGetAuthHeader 0,
         GenerationResponse 0
           (Inr \<lparr>resp_accessToken = Some ''A1'', resp_refreshToken = ''R1'',
                 resp_accessTokenExpiry = 86400000, resp_refreshTokenExpiry = 604800000\<rparr>) 1,
         FinallyCallback 0])"
proof -
  let ?as = "[CallGetAuthHeader 0,
         GenerationResponse 0
           (Inr \<lparr>resp_accessToken = Some ''A1'', resp_refreshToken = ''R1'',
                 resp_accessTokenExpiry = 86400000, resp_refreshTokenExpiry = 604800000\<rparr>) 1,
         FinallyCallback 0]"
  obtain m where r: "run (new_AuthManager (Some ''01-XXXX'') None None None) ?as = Some m"
    and v: "fst (getAccessToken m 5) = Value (Some ''A1'')"
    and p: "0 < length (promises m)"
      "phase (promises m ! 0) = Finalized (Fulfilled (Some ''A1''))"
    by (simp add: exec_defs)
  have tr: "\<forall>v \<in> set (returned_tokens ?as). truthy v" by simp
  note t = getAccessToken_delivers_returned_tokens[OF r, of 5 "''01-XXXX''"]
  from t v have "Some ''A1'' \<in> set (returned_tokens ?as)" by blast
  moreover from t tr p
  obtain tok where "Some ''A1'' = Some tok"
    "getAuthHeader_resume ''01-XXXX'' (delivered (Fulfilled (Some ''A1'')))
          = Inr [(''Authorization'', ''Bearer '' @ tok)]" by blast
  ultimately show ?thesis using r v p by auto
qed

text \<open>
  C10. \<open>clearTokens\<close> resets the stored pair and nothing else: the marker, the promises
  and the requests are as before. Hence a call made after a clearing that happened while
  an acquisition was pending awaits that acquisition and starts nothing. A refresh whose
  PUT is fulfilled after the clearing finds no storage to write through: it settles as
  rejected with the \<open>TypeError\<close>, and no pair is stored, also after its \<open>finally\<close> callback.
\<close>

theorem clearTokens_leaves_marker:
  "tokenRefreshPromise (clearTokens m) = tokenRefreshPromise m
   \<and> promises (clearTokens m) = promises m
   \<and> axios (clearTokens m) = axios m
   \<and> tokenStorage (clearTokens m) = None
   \<and> (tokenRefreshPromise m = Some p \<and> truthy (apiKey m)
        \<and> \<not> (Ingestion \<in> set (scopes m) \<and> length (scopes m) = 1) \<longrightarrow>
        getAuthHeader (clearTokens m) now = (Awaits p, clearTokens m))
   \<and> (awaiting m p Refresh \<longrightarrow>
        (\<exists>m'. step (clearTokens m) (RefreshResponse p (Inr response) now') = Some m'
           \<and> phase (promises m' ! p) = Settled (Rejected TypeError)
           \<and> tokenStorage m' = None
           \<and> (\<exists>m''. step m' (FinallyCallback p) = Some m''
                 \<and> tokenStorage m'' = None
                 \<and> phase (promises m'' ! p) = Finalized (Rejected TypeError))))"
proof -
  have a: "tokenRefreshPromise m = Some p \<and> truthy (apiKey m)
        \<and> \<not> (Ingestion \<in> set (scopes m) \<and> length (scopes m) = 1) \<longrightarrow>
        getAuthHeader (clearTokens m) now = (Awaits p, clearTokens m)"
    using getAuthHeader_pending[of "clearTokens m" p now]
    by (simp add: clearTokens_def)
  have b: "awaiting m p Refresh \<longrightarrow>
        (\<exists>m'. step (clearTokens m) (RefreshResponse p (Inr response) now') = Some m'
           \<and> phase (promises m' ! p) = Settled (Rejected TypeError)
           \<and> tokenStorage m' = None
           \<and> (\<exists>m''. step m' (FinallyCallback p) = Some m''
                 \<and> tokenStorage m'' = None
                 \<and> phase (promises m'' ! p) = Finalized (Rejected TypeError)))"
    by (simp add: awaiting_def clearTokens_def settle_def)
  from a b show ?thesis by (simp add: clearTokens_def)
qed

theorem clearTokens_leaves_marker_witness:
  "\<exists>m. run (new_AuthManager (Some ''01-XXXX'') None (Some 1000) (Some 5000))
          [CallGetAuthHeader 0,
           GenerationResponse 0
              (Inr \<lparr>resp_accessToken = Some ''A1'', resp_refreshToken = ''R1'',
                    resp_accessTokenExpiry = 1000, resp_refreshTokenExpiry = 5000\<rparr>) 0,
           FinallyCallback 0,
           CallGetAuthHeader 2000] = Some m
     \<and> awaiting m 1 Refresh \<and> tokenRefreshPromise m = Some 1
     \<and> getAuthHeader (clearTokens m) 2001 = (Awaits 1, clearTokens m)
     \<and> (\<exists>m'. step (clearTokens m)
                 (RefreshResponse 1 (Inr \<lparr>refreshed_accessToken = Some ''A2''\<rparr>) 2002) = Some m'
           \<and> phase (promises m' ! 1) = Settled (Rejected TypeError)
           \<and> tokenStorage m' = None)"
proof -
  obtain m where r: "run (new_AuthManager (Some ''01-XXXX'') None (Some 1000) (Some 5000))
          [CallGetAuthHeader 0,
           GenerationResponse 0
              (Inr \<lparr>resp_accessToken = Some ''A1'', resp_refreshToken = ''R1'',
                    resp_accessTokenExpiry = 1000, resp_refreshTokenExpiry = 5000\<rparr>) 0,
           FinallyCallback 0,
           CallGetAuthHeader 2000] = Some m"
    and f: "awaiting m 1 Refresh" "tokenRefreshPromise m = Some 1" "truthy (apiKey m)"
      "length (scopes m) = 3"
    by (simp add: exec_defs)
  have ni: "\<not> (Ingestion \<in> set (scopes m) \<and> length (scopes m) = 1)"
    using f(4) by simp
  from clearTokens_leaves_marker[of m 1 2001 "\<lparr>refreshed_accessToken = Some ''A2''\<rparr>" 2002]
    f(1,2,3) ni
  have "getAuthHeader (clearTokens m) 2001 = (Awaits 1, clearTokens m)
     \<and> (\<exists>m'. step (clearTokens m)
                 (RefreshResponse 1 (Inr \<lparr>refreshed_accessToken = Some ''A2''\<rparr>) 2002) = Some m'
           \<and> phase (promises m' ! 1) = Settled (Rejected TypeError)
           \<and> tokenStorage m' = None)"
    by blast
  with r f show ?thesis by blast
qed

end
